theory Spec2Isabelle
  imports Complex_Main "HOL-Library.Word" "HOL-Library.Multiset"
begin

section \<open>Common types\<close>

text \<open>
  Go's \<open>uint64\<close> is a 64-bit word: \<open>+\<close>, \<open>-\<close> and \<open>*\<close> wrap around, \<open><\<close> and
  \<open>div\<close> are unsigned. A \<open>byte\<close> is an 8-bit word.
\<close>

type_synonym uint64 = "64 word"
type_synonym byte = "8 word"

text \<open>The gRPC status code that \<open>CommitteeAssignment\<close> uses for its typed error.\<close>

datatype code = NotFound

text \<open>
  A Go \<open>error\<close> value. One constructor per place of the source that creates an error;
  \<open>Upstream\<close> stands for the errors of collaborators whose code is not among
  the verified sources. A returned \<open>nil\<close> error is \<open>None\<close> of \<open>error option\<close>.
\<close>

datatype error =
    Upstream string
  | SyncingError
  | CouldNotRetrieveHeadState "error option"
  | WantedBitfieldLength int int
  | BitIndexOutOfRange int int
  | CouldNotGetPermutedIndex uint64 error
  | CouldNotGenerateSeed error
  | CouldNotGetStartShard error
  | CouldNotGetCommittee error
  | BitfieldUnableToBeVerified
  | EpochOutOfBounds uint64 uint64 uint64
  | StatusError code string
  | CacheWriteError

text \<open>
  A run-time panic of Go ends the call without any return value. A function that can
  panic returns \<open>panic + 'a\<close>, with \<open>Inl\<close> for the panic and \<open>Inr\<close> for the values
  it returns.
\<close>

datatype panic = IntegerDivideByZero | IndexOutOfRange

section \<open>Committee helpers (package helpers)\<close>

text \<open>
  The fields of \<open>params.BeaconConfig()\<close> that the helpers read. The \<open>params\<close> package
  is not among the verified sources, so the configuration is an argument of every function that
  reads it.
\<close>

record BeaconConfig =
  ShardCount :: uint64
  SlotsPerEpoch :: uint64
  TargetCommitteeSize :: uint64
  GenesisEpoch :: uint64

text \<open>
  \<open>EpochCommitteeCount\<close>. The source calls \<open>ActiveValidatorIndices(state, epoch)\<close> and
  does not use the result; the count it divides is the identifier
  \<open>activeValidatorCount\<close>, which the function does not declare, so it is an argument
  here (as in the spec's signature). Go's integer division panics on a zero divisor;
  the two divisions are checked in the order in which the source evaluates them.
\<close>

definition EpochCommitteeCount :: "BeaconConfig \<Rightarrow> uint64 \<Rightarrow> panic + uint64" where
  "EpochCommitteeCount cfg activeValidatorCount =
     (let minCommitteePerSlot = 1 in
      if SlotsPerEpoch cfg = 0 then Inl IntegerDivideByZero
      else
        let committeeSizesPerSlot =
              (if ShardCount cfg div SlotsPerEpoch cfg > minCommitteePerSlot
               then ShardCount cfg div SlotsPerEpoch cfg
               else minCommitteePerSlot)
        in
        if TargetCommitteeSize cfg = 0 then Inl IntegerDivideByZero
        else
          let currCommitteePerSlot =
                activeValidatorCount div SlotsPerEpoch cfg div TargetCommitteeSize cfg
          in
          if currCommitteePerSlot > committeeSizesPerSlot
          then Inr (committeeSizesPerSlot * SlotsPerEpoch cfg)
          else if currCommitteePerSlot < 1
          then Inr (minCommitteePerSlot * SlotsPerEpoch cfg)
          else Inr (currCommitteePerSlot * SlotsPerEpoch cfg))"

text \<open>
  The formula of the spec (section 4.1), written from its words, to compare with the
  function above: \<open>perSlotCap = max(1, shardCount / slotsPerEpoch)\<close>,
  \<open>perSlot = clamp(perSlotFromValidators, 1, perSlotCap)\<close>, result
  \<open>perSlot * slotsPerEpoch\<close>.
\<close>

definition clamp :: "uint64 \<Rightarrow> uint64 \<Rightarrow> uint64 \<Rightarrow> uint64" where
  "clamp x lo hi = (if x < lo then lo else if hi < x then hi else x)"

definition EpochCommitteeCount_spec :: "uint64 \<Rightarrow> uint64 \<Rightarrow> uint64 \<Rightarrow> uint64 \<Rightarrow> uint64" where
  "EpochCommitteeCount_spec activeValidatorCount shardCount slotsPerEpoch targetCommitteeSize =
     (let perSlotCap = max 1 (shardCount div slotsPerEpoch);
          perSlotFromValidators = activeValidatorCount div slotsPerEpoch div targetCommitteeSize;
          perSlot = clamp perSlotFromValidators 1 perSlotCap
      in perSlot * slotsPerEpoch)"

subsection \<open>Committees\<close>

text \<open>The \<open>[32]byte\<close> seed. The helpers only hand it on to the permutation primitive.\<close>

type_synonym seed = "byte list"

text \<open>
  \<open>ComputeCommittee\<close>. \<open>utils.SplitOffset\<close> and \<open>utils.PermutedIndex\<close> are not among
  the verified sources; they are the arguments \<open>splitOffset\<close> (which may panic, as an integer
  division can) and \<open>permutedIndex\<close> (which returns Go's pair of a position and an
  error). The offsets and the loop counter are \<open>uint64\<close>: \<open>index+1\<close> and
  \<open>endOffset-startOffset\<close> wrap around. \<open>make\<close> gives a slice of zeros; that it can
  fail for want of memory is not modelled. Reading \<open>validatorIndices\<close> or writing
  \<open>indices\<close> outside their length panics.
\<close>

function ComputeCommittee_loop ::
  "(uint64 \<Rightarrow> uint64 \<Rightarrow> seed \<Rightarrow> uint64 \<times> error option) \<Rightarrow> uint64 list \<Rightarrow> seed \<Rightarrow> uint64
   \<Rightarrow> uint64 \<Rightarrow> uint64 \<Rightarrow> uint64 \<Rightarrow> uint64 list \<Rightarrow> panic + (uint64 list \<times> error option)"
where
  "ComputeCommittee_loop permutedIndex validatorIndices seed validatorCount
       startOffset endOffset i indices =
     (if i < endOffset then
        (case permutedIndex i validatorCount seed of
           (p, Some err) \<Rightarrow> Inr ([], Some (CouldNotGetPermutedIndex i err))
         | (p, None) \<Rightarrow>
             if unat p < length validatorIndices \<and> unat (i - startOffset) < length indices
             then ComputeCommittee_loop permutedIndex validatorIndices seed validatorCount
                    startOffset endOffset (i + 1)
                    (indices[unat (i - startOffset) := validatorIndices ! unat p])
             else Inl IndexOutOfRange)
      else Inr (indices, None))"
  by pat_completeness auto
termination
proof (relation "measure (\<lambda>(permutedIndex, validatorIndices, seed, validatorCount,
                             startOffset, endOffset, i, indices). unat endOffset - unat i)",
       goal_cases)
  case 1
  show ?case by simp
next
  case (2 permutedIndex validatorIndices seed validatorCount startOffset endOffset i indices)
  from \<open>i < endOffset\<close> have lt: "unat i < unat endOffset"
    by (simp add: word_less_nat_alt)
  have "unat endOffset < 2 ^ 64"
    using unsigned_less [of endOffset, where 'a = nat] by simp
  with lt have "unat (i + 1) = unat i + 1"
    by (simp add: unat_word_ariths)
  with lt show ?case by simp
qed

declare ComputeCommittee_loop.simps [simp del]

definition ComputeCommittee ::
  "(uint64 \<Rightarrow> uint64 \<Rightarrow> uint64 \<Rightarrow> panic + uint64)
   \<Rightarrow> (uint64 \<Rightarrow> uint64 \<Rightarrow> seed \<Rightarrow> uint64 \<times> error option)
   \<Rightarrow> uint64 list \<Rightarrow> seed \<Rightarrow> uint64 \<Rightarrow> uint64 \<Rightarrow> panic + (uint64 list \<times> error option)"
where
  "ComputeCommittee splitOffset permutedIndex validatorIndices seed index totalCommittees =
     (let validatorCount = of_nat (length validatorIndices) in
      case splitOffset validatorCount totalCommittees index of
        Inl pnc \<Rightarrow> Inl pnc
      | Inr startOffset \<Rightarrow>
          (case splitOffset validatorCount totalCommittees (index + 1) of
             Inl pnc \<Rightarrow> Inl pnc
           | Inr endOffset \<Rightarrow>
               let indices = replicate (unat (endOffset - startOffset)) 0
               in ComputeCommittee_loop permutedIndex validatorIndices seed validatorCount
                    startOffset endOffset startOffset indices))"

text \<open>
  Modelled from the spec: \<open>utils.SplitOffset\<close> is not among the verified sources. Spec 4.1:
  \<open>splitOffset(N, totalCommittees, i) = floor(N * i / totalCommittees)\<close>, the product
  taken in the integers and the quotient returned as a \<open>uint64\<close>. Dividing by zero
  chunks panics, as Go's integer division does.
\<close>

definition SplitOffset :: "uint64 \<Rightarrow> uint64 \<Rightarrow> uint64 \<Rightarrow> panic + uint64" where
  "SplitOffset listSize chunks index =
     (if chunks = 0 then Inl IntegerDivideByZero
      else Inr (of_nat ((unat listSize * unat index) div unat chunks)))"

text \<open>
  Two instances of the permutation primitive for evaluating \<open>ComputeCommittee\<close> on
  concrete inputs (the primitive itself is not among the verified sources): the identity, and the
  reversal \<open>p \<mapsto> N - 1 - p\<close>. Both are bijections on the positions below \<open>N\<close> and
  never fail.
\<close>

definition PermutedIndex_identity :: "uint64 \<Rightarrow> uint64 \<Rightarrow> seed \<Rightarrow> uint64 \<times> error option" where
  "PermutedIndex_identity index indexCount seed = (index, None)"

definition PermutedIndex_reversal :: "uint64 \<Rightarrow> uint64 \<Rightarrow> seed \<Rightarrow> uint64 \<times> error option" where
  "PermutedIndex_reversal index indexCount seed = (indexCount - 1 - index, None)"

subsection \<open>Bitfields\<close>

text \<open>
  Modelled from the spec: \<open>mathutil.CeilDiv8\<close> is not among the verified sources. Spec 4.4 and the
  claim name it \<open>ceil(committeeSize/8)\<close>; the doc comment of \<open>VerifyBitfield\<close> writes
  \<open>(committee_size + 7) // 8\<close> with Python's flooring division, which is HOL's \<open>div\<close>.
\<close>

definition CeilDiv8 :: "int \<Rightarrow> int" where
  "CeilDiv8 n = (n + 7) div 8"

text \<open>
  \<open>VerifyBitfield\<close>. \<open>bitutil.CheckBit\<close> is not among the verified sources, so it is the argument
  \<open>checkBit\<close>: from a bitfield and a position to Go's pair of the bit and an error.
  \<open>committeeSize\<close> is a Go \<open>int\<close> and may be negative. \<open>len(bitfield) << 3\<close> is
  \<open>8 * len(bitfield)\<close>: a byte slice is shorter than \<open>2^60\<close>, so the shift does not
  overflow. The loop runs from \<open>committeeSize\<close> up to \<open>bitLength\<close> and leaves at the
  first error or the first set bit.
\<close>

function VerifyBitfield_loop ::
  "(byte list \<Rightarrow> int \<Rightarrow> bool \<times> error option) \<Rightarrow> byte list \<Rightarrow> int \<Rightarrow> int \<Rightarrow> bool \<times> error option"
where
  "VerifyBitfield_loop checkBit bitfield bitLength i =
     (if i < bitLength then
        (case checkBit bitfield i of
           (set', Some err) \<Rightarrow> (False, Some err)
         | (set', None) \<Rightarrow>
             if set' then (False, None)
             else VerifyBitfield_loop checkBit bitfield bitLength (i + 1))
      else (True, None))"
  by pat_completeness auto
termination
  by (relation "measure (\<lambda>(checkBit, bitfield, bitLength, i). nat (bitLength - i))") auto

definition VerifyBitfield ::
  "(byte list \<Rightarrow> int \<Rightarrow> bool \<times> error option) \<Rightarrow> byte list \<Rightarrow> int \<Rightarrow> bool \<times> error option"
where
  "VerifyBitfield checkBit bitfield committeeSize =
     (if int (length bitfield) \<noteq> CeilDiv8 committeeSize
      then (False, Some (WantedBitfieldLength (CeilDiv8 committeeSize) (int (length bitfield))))
      else
        let bitLength = int (length bitfield) * 8
        in VerifyBitfield_loop checkBit bitfield bitLength committeeSize)"

text \<open>
  Modelled from the spec: \<open>bitutil.CheckBit\<close> is not among the verified sources and the spec says
  only that a bitfield is a bitmask over committee positions. This instance, used to
  evaluate the functions on concrete bitfields, reads position \<open>i\<close> as bit \<open>i mod 8\<close>
  (least significant first) of byte \<open>i div 8\<close> and reports an error for a position
  outside the bitfield.
\<close>

definition CheckBit :: "byte list \<Rightarrow> int \<Rightarrow> bool \<times> error option" where
  "CheckBit bitfield i =
     (if 0 \<le> i \<and> i < int (length bitfield) * 8
      then (bit (bitfield ! nat (i div 8)) (nat (i mod 8)), None)
      else (False, Some (BitIndexOutOfRange (int (length bitfield)) i)))"

subsection \<open>Collaborators of the committee helpers\<close>

text \<open>
  The functions of the repository that the helpers call and the verified sources do not hold,
  as fields of one record: the helpers of the same package (\<open>ActiveValidatorIndices\<close>,
  \<open>GenerateSeed\<close>, \<open>EpochStartShard\<close>, \<open>PrevEpoch\<close>, \<open>NextEpoch\<close>, \<open>StartSlot\<close>),
  \<open>utils.SplitOffset\<close>, \<open>utils.PermutedIndex\<close>, \<open>bitutil.CheckBit\<close>, and the
  identifier \<open>activeValidatorCount\<close> read by \<open>EpochCommitteeCount\<close> (the field
  \<open>pkg_activeValidatorCount\<close>). A function that
  returns a value and an error returns Go's pair. The beacon state is only handed to
  these functions, so its type is the parameter \<open>'st\<close>.
\<close>

record 'st Collaborators =
  ActiveValidatorIndices :: "'st \<Rightarrow> uint64 \<Rightarrow> uint64 list"
  GenerateSeed :: "'st \<Rightarrow> uint64 \<Rightarrow> seed \<times> error option"
  EpochStartShard :: "'st \<Rightarrow> uint64 \<Rightarrow> uint64 \<times> error option"
  PrevEpoch :: "'st \<Rightarrow> uint64"
  NextEpoch :: "'st \<Rightarrow> uint64"
  StartSlot :: "uint64 \<Rightarrow> uint64"
  utils_SplitOffset :: "uint64 \<Rightarrow> uint64 \<Rightarrow> uint64 \<Rightarrow> panic + uint64"
  utils_PermutedIndex :: "uint64 \<Rightarrow> uint64 \<Rightarrow> seed \<Rightarrow> uint64 \<times> error option"
  bitutil_CheckBit :: "byte list \<Rightarrow> int \<Rightarrow> bool \<times> error option"
  pkg_activeValidatorCount :: uint64

subsection \<open>Crosslink committees and attesting indices\<close>

text \<open>The two fields of \<open>pb.AttestationData\<close> that \<open>AttestingIndices\<close> reads.\<close>

record AttestationData =
  TargetEpoch :: uint64
  Shard :: uint64

text \<open>
  \<open>CrosslinkCommitteeAtEpoch\<close>. A returned \<open>nil\<close> slice is the empty list. The
  remainder by \<open>shardCount\<close> panics when \<open>shardCount\<close> is zero.
\<close>

definition CrosslinkCommitteeAtEpoch ::
  "'st Collaborators \<Rightarrow> BeaconConfig \<Rightarrow> 'st \<Rightarrow> uint64 \<Rightarrow> uint64
   \<Rightarrow> panic + (uint64 list \<times> error option)"
where
  "CrosslinkCommitteeAtEpoch ext cfg state epoch shard =
     (let indices = ActiveValidatorIndices ext state epoch in
      case GenerateSeed ext state epoch of
        (seed, Some err) \<Rightarrow> Inr ([], Some (CouldNotGenerateSeed err))
      | (seed, None) \<Rightarrow>
          (case EpochStartShard ext state epoch of
             (startShard, Some err) \<Rightarrow> Inr ([], Some (CouldNotGetStartShard err))
           | (startShard, None) \<Rightarrow>
               let shardCount = ShardCount cfg in
               if shardCount = 0 then Inl IntegerDivideByZero
               else
                 let currentShard = (shard + shardCount - startShard) mod shardCount in
                 (case EpochCommitteeCount cfg (pkg_activeValidatorCount ext) of
                    Inl pnc \<Rightarrow> Inl pnc
                  | Inr committeeCount \<Rightarrow>
                      ComputeCommittee (utils_SplitOffset ext) (utils_PermutedIndex ext)
                        indices seed currentShard committeeCount)))"

text \<open>
  \<open>AttestingIndices\<close>. \<open>sort.Slice\<close> with the comparison \<open>committee[i] < committee[j]\<close>
  on \<open>uint64\<close> values puts the slice in ascending order; equal values cannot be told
  apart, so the result is the sorted list whatever the algorithm does with ties.
\<close>

definition AttestingIndices ::
  "'st Collaborators \<Rightarrow> BeaconConfig \<Rightarrow> 'st \<Rightarrow> AttestationData \<Rightarrow> byte list
   \<Rightarrow> panic + (uint64 list \<times> error option)"
where
  "AttestingIndices ext cfg state data bitfield =
     (case CrosslinkCommitteeAtEpoch ext cfg state (TargetEpoch data) (AttestationData.Shard data) of
        Inl pnc \<Rightarrow> Inl pnc
      | Inr (committee, Some err) \<Rightarrow> Inr ([], Some (CouldNotGetCommittee err))
      | Inr (committee, None) \<Rightarrow>
          (case VerifyBitfield (bitutil_CheckBit ext) bitfield (int (length committee)) of
             (isValidated, err) \<Rightarrow>
               if \<not> isValidated \<or> err \<noteq> None then
                 (case err of
                    Some e \<Rightarrow> Inr ([], Some e)
                  | None \<Rightarrow> Inr ([], Some BitfieldUnableToBeVerified))
               else Inr (sort committee, None)))"

text \<open>
  What the doc comment of \<open>AttestingIndices\<close> and the spec ask for, written from their
  words: the members of the committee at the positions whose bit is set, sorted.
\<close>

definition attesting_members :: "(byte list \<Rightarrow> int \<Rightarrow> bool \<times> error option) \<Rightarrow> uint64 list \<Rightarrow> byte list \<Rightarrow> uint64 list" where
  "attesting_members checkBit committee bitfield =
     sort (map (\<lambda>i. committee ! i)
             (filter (\<lambda>i. fst (checkBit bitfield (int i))) [0 ..< length committee]))"

text \<open>
  Collaborators for evaluating the helpers on a concrete state: two active validators
  \<open>5\<close> and \<open>3\<close>, a constant seed, start shard \<open>0\<close>, the identity permutation, and the
  instances of \<open>SplitOffset\<close> and \<open>CheckBit\<close> above.
\<close>

definition example_collaborators :: "unit Collaborators" where
  "example_collaborators =
     \<lparr>ActiveValidatorIndices = (\<lambda>st epoch. [5, 3]),
      GenerateSeed = (\<lambda>st epoch. (replicate 32 0, None)),
      EpochStartShard = (\<lambda>st epoch. (0, None)),
      PrevEpoch = (\<lambda>st. 0), NextEpoch = (\<lambda>st. 1), StartSlot = (\<lambda>epoch. epoch * 2),
      utils_SplitOffset = SplitOffset, utils_PermutedIndex = PermutedIndex_identity,
      bitutil_CheckBit = CheckBit, pkg_activeValidatorCount = 2\<rparr>"

subsection \<open>Committee cache and committee assignment\<close>

text \<open>
  The records of package \<open>cache\<close>, as \<open>ToCommitteeCache\<close> builds them, and the
  \<open>CrosslinkCommittee\<close> of the helpers.
\<close>

record CrosslinkCommittee =
  Committee :: "uint64 list"
  Shard :: uint64

record CommitteeInfo =
  Committee :: "uint64 list"
  Shard :: uint64

record CommitteesInSlot =
  Slot :: uint64
  Committees :: "CommitteeInfo list"

text \<open>
  Modelled from the spec: package \<open>cache\<close> is not among the verified sources. Spec 4.2
  describes the committee cache as a store keyed by slot number that maps to a
  \<open>CommitteesInSlot\<close> record, with no eviction. The process-wide variable
  \<open>committeeCache\<close> is passed to the functions that use it and returned by those that
  change it.
\<close>

type_synonym CommitteesCache = "uint64 \<rightharpoonup> CommitteesInSlot"

text \<open>
  Modelled from the spec: \<open>cache.NewCommitteesCache\<close> is not among the verified
  sources; by spec 4.2 a new store is empty.
\<close>

definition NewCommitteesCache :: CommitteesCache where
  "NewCommitteesCache = Map.empty"

text \<open>
  Modelled from the spec: \<open>CommitteesInfoBySlot\<close> is not among the verified sources.
  Spec 4.2: it returns the record or its absence, and fails only on internal
  corruption, never on absence; a store of well-typed records has no corruption, so
  the error is always nil.
\<close>

definition CommitteesInfoBySlot ::
  "CommitteesCache \<Rightarrow> uint64 \<Rightarrow> CommitteesInSlot option \<times> error option" where
  "CommitteesInfoBySlot cache slot = (cache slot, None)"

text \<open>
  Modelled from the spec: \<open>AddCommittees\<close> is not among the verified sources. Spec 4.2:
  it fails if a record for that slot already exists and conflicts; adding the same
  value again is not an error.
\<close>

definition AddCommittees ::
  "CommitteesCache \<Rightarrow> CommitteesInSlot \<Rightarrow> CommitteesCache \<times> error option" where
  "AddCommittees cache committees =
     (case cache (Slot committees) of
        None \<Rightarrow> (cache(Slot committees \<mapsto> committees), None)
      | Some existing \<Rightarrow>
          if existing = committees then (cache, None) else (cache, Some CacheWriteError))"

text \<open>\<open>RestartCommitteeCache\<close> assigns a new cache to \<open>committeeCache\<close>.\<close>

definition RestartCommitteeCache :: CommitteesCache where
  "RestartCommitteeCache = NewCommitteesCache"

text \<open>\<open>ToCommitteeCache\<close>: the loop appends one \<open>CommitteeInfo\<close> per crosslink committee.\<close>

definition ToCommitteeCache :: "uint64 \<Rightarrow> CrosslinkCommittee list \<Rightarrow> CommitteesInSlot" where
  "ToCommitteeCache slot crosslinkCommittees =
     (let cacheCommittee =
            map (\<lambda>crosslinkCommittee.
                   \<lparr>CommitteeInfo.Committee = CrosslinkCommittee.Committee crosslinkCommittee,
                    CommitteeInfo.Shard = CrosslinkCommittee.Shard crosslinkCommittee\<rparr>)
                crosslinkCommittees
      in \<lparr>Slot = slot, Committees = cacheCommittee\<rparr>)"

text \<open>
  \<open>CommitteeAssignment\<close> returns five values; a returned \<open>nil\<close> or empty slice is the
  empty list. The two inner \<open>range\<close> loops are recursions over the list; each either
  goes on with the \<open>selectedCommittees\<close> gathered so far (\<open>Next\<close>) or leaves the
  function (\<open>Done\<close>). \<open>Committees[0]\<close> and the remainder by the length of the first
  committee can panic.
\<close>

type_synonym assignment = "uint64 list \<times> uint64 \<times> uint64 \<times> bool \<times> error option"

datatype scan = Next "CommitteeInfo list" | Done "panic + assignment"

fun CommitteeAssignment_members ::
  "uint64 \<Rightarrow> uint64 \<Rightarrow> CommitteesInSlot \<Rightarrow> CommitteeInfo \<Rightarrow> CommitteeInfo list \<Rightarrow> uint64 list \<Rightarrow> scan"
where
  "CommitteeAssignment_members validatorIndex slot cachedCommittees committee selectedCommittees [] =
     Next selectedCommittees"
| "CommitteeAssignment_members validatorIndex slot cachedCommittees committee selectedCommittees
       (idx # rest) =
     (let selectedCommittees =
            (if idx = validatorIndex then selectedCommittees @ [committee] else selectedCommittees)
      in
      if length selectedCommittees > 0 then
        (case selectedCommittees of
           [] \<Rightarrow> Done (Inl IndexOutOfRange)
         | selected # _ \<Rightarrow>
             let validators = CommitteeInfo.Committee selected;
                 shard = CommitteeInfo.Shard selected
             in
             (case Committees cachedCommittees of
                [] \<Rightarrow> Done (Inl IndexOutOfRange)
              | first # _ \<Rightarrow>
                  let firstCommitteeAtSlot = CommitteeInfo.Committee first in
                  if length firstCommitteeAtSlot = 0 then Done (Inl IntegerDivideByZero)
                  else
                    let isProposer =
                          (firstCommitteeAtSlot
                             ! unat (slot mod of_nat (length firstCommitteeAtSlot))
                           = validatorIndex)
                    in Done (Inr (validators, shard, slot, isProposer, None))))
      else CommitteeAssignment_members validatorIndex slot cachedCommittees committee
             selectedCommittees rest)"

fun CommitteeAssignment_committees ::
  "uint64 \<Rightarrow> uint64 \<Rightarrow> CommitteesInSlot \<Rightarrow> CommitteeInfo list \<Rightarrow> CommitteeInfo list \<Rightarrow> scan"
where
  "CommitteeAssignment_committees validatorIndex slot cachedCommittees selectedCommittees [] =
     Next selectedCommittees"
| "CommitteeAssignment_committees validatorIndex slot cachedCommittees selectedCommittees
       (committee # rest) =
     (case CommitteeAssignment_members validatorIndex slot cachedCommittees committee
             selectedCommittees (CommitteeInfo.Committee committee) of
        Done r \<Rightarrow> Done r
      | Next selectedCommittees \<Rightarrow>
          CommitteeAssignment_committees validatorIndex slot cachedCommittees
            selectedCommittees rest)"

text \<open>
  The loop over the slots of the epoch, \<open>for slot := startSlot; slot < bound; slot++\<close>
  with \<open>bound = startSlot + SlotsPerEpoch\<close> in \<open>uint64\<close>. On a cache miss the source
  builds \<open>ToCommitteeCache(slot, [])\<close> and adds it to the cache; it computes no
  committee.
\<close>

function CommitteeAssignment_slots ::
  "uint64 \<Rightarrow> uint64 \<Rightarrow> uint64 \<Rightarrow> CommitteeInfo list \<Rightarrow> CommitteesCache
   \<Rightarrow> (panic + assignment) \<times> CommitteesCache"
where
  "CommitteeAssignment_slots validatorIndex bound slot selectedCommittees cache =
     (if slot < bound then
        (case CommitteesInfoBySlot cache slot of
           (cached, Some err) \<Rightarrow> (Inr ([], 0, 0, False, Some err), cache)
         | (None, None) \<Rightarrow>
             (let crosslinkCommittees = [];
                  cachedCommittees = ToCommitteeCache slot crosslinkCommittees
              in
              case AddCommittees cache cachedCommittees of
                (cache', Some err) \<Rightarrow> (Inr ([], 0, 0, False, Some err), cache')
              | (cache', None) \<Rightarrow>
                  (case CommitteeAssignment_committees validatorIndex slot cachedCommittees
                          selectedCommittees (Committees cachedCommittees) of
                     Done r \<Rightarrow> (r, cache')
                   | Next selectedCommittees' \<Rightarrow>
                       CommitteeAssignment_slots validatorIndex bound (slot + 1)
                         selectedCommittees' cache'))
         | (Some cachedCommittees, None) \<Rightarrow>
             (case CommitteeAssignment_committees validatorIndex slot cachedCommittees
                     selectedCommittees (Committees cachedCommittees) of
                Done r \<Rightarrow> (r, cache)
              | Next selectedCommittees' \<Rightarrow>
                  CommitteeAssignment_slots validatorIndex bound (slot + 1)
                    selectedCommittees' cache))
      else
        (Inr ([], 0, 0, False,
              Some (StatusError NotFound ''validator not found found in assignments'')),
         cache))"
  by pat_completeness auto
termination
proof (relation "measure (\<lambda>(validatorIndex, bound, slot, selectedCommittees, cache).
                             unat bound - unat slot)", goal_cases)
  case 1
  show ?case by simp
next
  case (2 validatorIndex bound slot)
  from \<open>slot < bound\<close> have lt: "unat slot < unat bound"
    by (simp add: word_less_nat_alt)
  have "unat bound < 2 ^ 64"
    using unsigned_less [of bound, where 'a = nat] by simp
  with lt have "unat (slot + 1) = unat slot + 1"
    by (simp add: unat_word_ariths)
  with lt show ?case by simp
next
  case (3 validatorIndex bound slot)
  from \<open>slot < bound\<close> have lt: "unat slot < unat bound"
    by (simp add: word_less_nat_alt)
  have "unat bound < 2 ^ 64"
    using unsigned_less [of bound, where 'a = nat] by simp
  with lt have "unat (slot + 1) = unat slot + 1"
    by (simp add: unat_word_ariths)
  with lt show ?case by simp
qed

declare CommitteeAssignment_slots.simps [simp del]

definition CommitteeAssignment ::
  "'st Collaborators \<Rightarrow> BeaconConfig \<Rightarrow> CommitteesCache \<Rightarrow> 'st \<Rightarrow> uint64 \<Rightarrow> uint64 \<Rightarrow> bool
   \<Rightarrow> (panic + assignment) \<times> CommitteesCache"
where
  "CommitteeAssignment ext cfg cache state slot validatorIndex registryChange =
     (let selectedCommittees = [] in
      if SlotsPerEpoch cfg = 0 then (Inl IntegerDivideByZero, cache)
      else
        let wantedEpoch = slot div SlotsPerEpoch cfg;
            prevEpoch = PrevEpoch ext state;
            nextEpoch = NextEpoch ext state
        in
        if wantedEpoch < prevEpoch \<or> wantedEpoch > nextEpoch then
          (Inr ([], 0, 0, False,
                Some (EpochOutOfBounds (wantedEpoch - GenesisEpoch cfg)
                        (prevEpoch - GenesisEpoch cfg) (nextEpoch - GenesisEpoch cfg))),
           cache)
        else
          let startSlot = StartSlot ext wantedEpoch in
          CommitteeAssignment_slots validatorIndex (startSlot + SlotsPerEpoch cfg) startSlot
            selectedCommittees cache)"

text \<open>
  A cache for evaluating \<open>CommitteeAssignment\<close>: one record, for slot \<open>2\<close>, with the
  committee \<open>[5, 3]\<close> of shard \<open>0\<close>.
\<close>

definition example_cache :: CommitteesCache where
  "example_cache =
     [2 \<mapsto> \<lparr>Slot = 2,
              Committees = [\<lparr>CommitteeInfo.Committee = [5, 3], CommitteeInfo.Shard = 0\<rparr>]\<rparr>]"

section \<open>Initial-sync service (beacon-chain/sync/initial-sync/service.go)\<close>

text \<open>
  The fields of \<open>Service\<close> that the service itself writes. The handles to the
  collaborators (\<open>chain\<close>, \<open>p2p\<close>, \<open>db\<close>, \<open>stateNotifier\<close>, \<open>counter\<close>, \<open>ctx\<close>) are
  not data of the model.
\<close>

record Service =
  synced :: bool
  chainStarted :: bool
  lastProcessedSlot :: uint64

text \<open>\<open>NewService\<close> sets only collaborator handles; every other field has Go's zero value.\<close>

definition NewService :: Service where
  "NewService = \<lparr>synced = False, chainStarted = False, lastProcessedSlot = 0\<rparr>"

definition Status :: "Service \<Rightarrow> error option" where
  "Status s = (if \<not> synced s \<and> chainStarted s then Some SyncingError else None)"

definition Syncing :: "Service \<Rightarrow> bool" where
  "Syncing s = (\<not> synced s)"

text \<open>
  \<open>Resync\<close> and \<open>waitForMinimumPeers\<close>. Their collaborators, which the verified sources do
  not hold, are the fields of one record: \<open>s.chain.HeadState\<close> (the genesis time of the
  head state or \<open>nil\<close>, and an error), the number of peers that the \<open>n\<close>-th call of
  \<open>BestNonFinalized\<close> returns, the two peer limits, and \<open>s.roundRobinSync\<close>, which
  receives the service and the genesis time (seconds) and either returns the service it
  leaves and an error, or does not return (\<open>None\<close>).
\<close>

record SyncCollaborators =
  chain_HeadState :: "uint64 option \<times> error option"
  p2p_BestNonFinalized :: "nat \<Rightarrow> nat"
  MaxPeersToSync :: int
  MinimumSyncPeers :: int
  roundRobinSync :: "Service \<Rightarrow> int \<Rightarrow> (Service \<times> error option) option"

text \<open>
  The package-level logger \<open>log\<close> (here \<open>logger\<close>) is state:
  \<open>log = log.WithError(err)\<close> replaces it by a logger that attaches \<open>err\<close> to every later entry. The model keeps that attached
  error and the \<open>Info\<close> entries written, each with its message and the error attached
  to it.
\<close>

type_synonym logger = "error option"

datatype log_entry = Info string "error option"

text \<open>
  The polling loop of \<open>waitForMinimumPeers\<close> has no bound: it may run forever, and then
  the function is \<open>None\<close>. It returns the number of polls that found too few peers.
\<close>

partial_function (option) waitForMinimumPeers_loop :: "(nat \<Rightarrow> nat) \<Rightarrow> int \<Rightarrow> nat \<Rightarrow> nat option"
where
  "waitForMinimumPeers_loop peersAt required n =
     (if int (peersAt n) \<ge> required then Some n
      else waitForMinimumPeers_loop peersAt required (n + 1))"

definition waitForMinimumPeers :: "SyncCollaborators \<Rightarrow> nat option" where
  "waitForMinimumPeers env =
     (let required = MaxPeersToSync env;
          required = (if MinimumSyncPeers env < required then MinimumSyncPeers env else required)
      in waitForMinimumPeers_loop (p2p_BestNonFinalized env) required 0)"

text \<open>
  \<open>Resync\<close> returns the service and the logger it leaves, the log entries it wrote and
  its error result. The deferred \<open>s.synced = true\<close> runs when the function returns
  after the \<open>defer\<close> statement.
\<close>

definition Resync ::
  "SyncCollaborators \<Rightarrow> Service \<times> logger
   \<Rightarrow> ((Service \<times> logger) \<times> log_entry list \<times> error option) option"
where
  "Resync env st =
     (case st of (s, logger) \<Rightarrow>
      case chain_HeadState env of (headState, err) \<Rightarrow>
        (case (err, headState) of
           (Some e, _) \<Rightarrow> Some ((s, logger), [], Some (CouldNotRetrieveHeadState err))
         | (None, None) \<Rightarrow> Some ((s, logger), [], Some (CouldNotRetrieveHeadState err))
         | (None, Some genesisTime) \<Rightarrow>
             let s = s\<lparr>synced := False\<rparr>;
                 genesis = sint genesisTime
             in
             (case waitForMinimumPeers env of
                None \<Rightarrow> None
              | Some polls \<Rightarrow>
                  (case roundRobinSync env s genesis of
                     None \<Rightarrow> None
                   | Some (s, err) \<Rightarrow>
                       let waiting =
                             replicate polls
                               (Info ''Waiting for enough suitable peers before syncing'' logger);
                           logger = (if err \<noteq> None then err else logger);
                           entries = waiting @ [Info ''Resync attempt complete'' logger]
                       in Some ((s\<lparr>synced := True\<rparr>, logger), entries, None)))))"

text \<open>
  Collaborators for evaluating \<open>Resync\<close>: a head state with genesis time \<open>100\<close>, \<open>n\<close>
  peers at the \<open>n\<close>-th poll with two required, and a round-robin sync that reaches
  slot \<open>7\<close> and then fails.
\<close>

definition example_sync :: SyncCollaborators where
  "example_sync =
     \<lparr>chain_HeadState = (Some 100, None),
      p2p_BestNonFinalized = (\<lambda>n. n),
      MaxPeersToSync = 3,
      MinimumSyncPeers = 2,
      roundRobinSync = (\<lambda>s genesis. Some (s\<lparr>lastProcessedSlot := 7\<rparr>, Some (Upstream ''sync'')))\<rparr>"

section \<open>Properties of the committee count\<close>

lemma perSlot_no_overflow:
  fixes per S SC :: uint64
  assumes "per \<le> max 1 (SC div S)"
  shows "unat (per * S) = unat per * unat S"
proof -
  have "unat per \<le> unat (max 1 (SC div S))" using assms by (simp add: word_le_nat_alt)
  also have "\<dots> \<le> max 1 (unat SC div unat S)"
    by (simp add: max_def unat_div word_le_nat_alt split: if_splits)
  finally have "unat per * unat S \<le> max 1 (unat SC div unat S) * unat S"
    by (rule mult_le_mono1)
  also have "\<dots> \<le> max (unat S) (unat SC)"
  proof (cases "1 \<le> unat SC div unat S")
    case True
    then have "max 1 (unat SC div unat S) * unat S = unat SC div unat S * unat S" by simp
    also have "\<dots> \<le> unat SC" by simp
    finally show ?thesis by simp
  next
    case False
    then have "max 1 (unat SC div unat S) = 1" by simp
    then show ?thesis by simp
  qed
  also have "\<dots> < 2 ^ 64"
    using unsigned_less [of S, where 'a = nat] unsigned_less [of SC, where 'a = nat]
    by (simp add: max_def)
  finally show ?thesis by (simp add: unat_mult_lem [THEN iffD1])
qed

lemma clamp_bounds: "lo \<le> hi \<Longrightarrow> lo \<le> clamp x lo hi \<and> clamp x lo hi \<le> hi"
  by (auto simp: clamp_def)

lemma EpochCommitteeCount_eq_spec:
  assumes "SlotsPerEpoch cfg \<noteq> 0" "TargetCommitteeSize cfg \<noteq> 0"
  shows "EpochCommitteeCount cfg n =
    Inr (EpochCommitteeCount_spec n (ShardCount cfg) (SlotsPerEpoch cfg) (TargetCommitteeSize cfg))"
  using assms
  by (auto simp: EpochCommitteeCount_def EpochCommitteeCount_spec_def clamp_def Let_def max_def
        not_less word_less_1 dest: order_antisym)

text \<open>
  Claim C3. With \<open>slotsPerEpoch > 0\<close> and \<open>targetCommitteeSize > 0\<close>,
  \<open>EpochCommitteeCount\<close> returns
  \<open>clamp(activeValidatorCount / slotsPerEpoch / targetCommitteeSize, 1,
  max(1, shardCount / slotsPerEpoch)) * slotsPerEpoch\<close> in unsigned 64-bit division;
  the product does not wrap, so the result is \<open>k * slotsPerEpoch\<close> for some \<open>k > 0\<close>
  and is at least \<open>slotsPerEpoch\<close>; with \<open>shardCount = 64\<close>, \<open>slotsPerEpoch = 64\<close>,
  \<open>activeCount = 640\<close>, \<open>targetCommitteeSize = 128\<close> the result is 64.
\<close>

theorem EpochCommitteeCount_clamp:
  assumes "SlotsPerEpoch cfg \<noteq> 0" and "TargetCommitteeSize cfg \<noteq> 0"
  shows "EpochCommitteeCount cfg activeValidatorCount =
           Inr (clamp (activeValidatorCount div SlotsPerEpoch cfg div TargetCommitteeSize cfg) 1
                  (max 1 (ShardCount cfg div SlotsPerEpoch cfg)) * SlotsPerEpoch cfg)
         \<and> (\<exists>r k. EpochCommitteeCount cfg activeValidatorCount = Inr r \<and> 0 < k
                \<and> unat r = k * unat (SlotsPerEpoch cfg) \<and> SlotsPerEpoch cfg \<le> r)
         \<and> EpochCommitteeCount
              \<lparr>ShardCount = 64, SlotsPerEpoch = 64, TargetCommitteeSize = 128, GenesisEpoch = g\<rparr> 640
            = Inr 64"
proof -
  let ?S = "SlotsPerEpoch cfg"
  let ?cap = "max 1 (ShardCount cfg div ?S)"
  let ?per = "clamp (activeValidatorCount div ?S div TargetCommitteeSize cfg) 1 ?cap"
  have eq: "EpochCommitteeCount cfg activeValidatorCount = Inr (?per * ?S)"
    using EpochCommitteeCount_eq_spec [OF assms] by (simp add: EpochCommitteeCount_spec_def Let_def)
  have b: "1 \<le> ?per \<and> ?per \<le> ?cap" by (rule clamp_bounds) simp
  have u: "unat (?per * ?S) = unat ?per * unat ?S"
    by (rule perSlot_no_overflow) (rule b [THEN conjunct2])
  have p: "0 < unat ?per" using b by (simp add: word_le_nat_alt)
  then have "unat ?S \<le> unat ?per * unat ?S" by simp
  then have le: "?S \<le> ?per * ?S" using u by (simp add: word_le_nat_alt)
  have ex: "EpochCommitteeCount
              \<lparr>ShardCount = 64, SlotsPerEpoch = 64, TargetCommitteeSize = 128, GenesisEpoch = g\<rparr> 640
            = Inr 64"
    by (simp add: EpochCommitteeCount_def)
  show ?thesis using eq u p le ex by blast
qed

theorem EpochCommitteeCount_clamp_witness:
  "EpochCommitteeCount
     \<lparr>ShardCount = 1024, SlotsPerEpoch = 64, TargetCommitteeSize = 128, GenesisEpoch = 0\<rparr> 300000
   = Inr 1024
   \<and> clamp (300000 div 64 div 128) 1 (max 1 (1024 div 64)) * 64 = (1024 :: uint64)"
  using EpochCommitteeCount_clamp
    [of "\<lparr>ShardCount = 1024, SlotsPerEpoch = 64, TargetCommitteeSize = 128, GenesisEpoch = 0\<rparr>"
        300000 0]
  by (simp add: clamp_def)

section \<open>Properties of committee computation\<close>

lemma unat_Suc_below:
  fixes i e :: uint64
  assumes "i < e"
  shows "unat (i + 1) = unat i + 1"
proof -
  from assms have lt: "unat i < unat e" by (simp add: word_less_nat_alt)
  have "unat e < 2 ^ 64" using unsigned_less [of e, where 'a = nat] by simp
  with lt show ?thesis by (simp add: unat_word_ariths)
qed

text \<open>The loop's result in closed form, when the primitive succeeds in range.\<close>

lemma ComputeCommittee_loop_map:
  assumes "startOffset \<le> i" and "i \<le> endOffset"
    and "length indices = unat (endOffset - startOffset)"
    and "\<forall>q. i \<le> q \<and> q < endOffset \<longrightarrow>
            snd (permutedIndex q validatorCount seed) = None
            \<and> unat (fst (permutedIndex q validatorCount seed)) < length validatorIndices"
  shows "ComputeCommittee_loop permutedIndex validatorIndices seed validatorCount
           startOffset endOffset i indices
         = Inr (take (unat i - unat startOffset) indices
                @ map (\<lambda>q. validatorIndices ! unat (fst (permutedIndex (of_nat q) validatorCount seed)))
                    [unat i ..< unat endOffset], None)"
  using assms
proof (induction permutedIndex validatorIndices seed validatorCount startOffset endOffset i indices
       rule: ComputeCommittee_loop.induct)
  case (1 permutedIndex validatorIndices seed validatorCount startOffset endOffset i indices)
  show ?case
  proof (cases "i < endOffset")
    case False
    with "1.prems" have "i = endOffset" by simp
    with "1.prems" show ?thesis
      by (subst ComputeCommittee_loop.simps) (simp add: unat_sub)
  next
    case True
    from True "1.prems" have "snd (permutedIndex i validatorCount seed) = None"
      and "unat (fst (permutedIndex i validatorCount seed)) < length validatorIndices"
      by simp_all
    then obtain p where ok: "permutedIndex i validatorCount seed = (p, None)"
      and rng: "unat p < length validatorIndices"
      by (cases "permutedIndex i validatorCount seed") simp
    have suc: "unat (i + 1) = unat i + 1" using True by (rule unat_Suc_below)
    have lt: "unat i < unat endOffset" using True by (simp add: word_less_nat_alt)
    have ge: "unat startOffset \<le> unat i" using "1.prems" by (simp add: word_le_nat_alt)
    have len: "length indices = unat endOffset - unat startOffset"
      using "1.prems" by (simp add: unat_sub)
    have off: "unat (i - startOffset) = unat i - unat startOffset"
      using "1.prems" by (simp add: unat_sub)
    have inr: "unat (i - startOffset) < length indices" using off len lt ge by simp
    let ?indices' = "indices[unat (i - startOffset) := validatorIndices ! unat p]"
    have le1: "startOffset \<le> i + 1" "i + 1 \<le> endOffset"
      using suc ge lt by (simp_all add: word_le_nat_alt)
    have rest: "\<forall>q. i + 1 \<le> q \<and> q < endOffset \<longrightarrow>
            snd (permutedIndex q validatorCount seed) = None
            \<and> unat (fst (permutedIndex q validatorCount seed)) < length validatorIndices"
      using "1.prems"(4) suc by (auto simp: word_le_nat_alt)
    have IH: "ComputeCommittee_loop permutedIndex validatorIndices seed validatorCount
           startOffset endOffset (i + 1) ?indices'
         = Inr (take (unat (i + 1) - unat startOffset) ?indices'
                @ map (\<lambda>q. validatorIndices ! unat (fst (permutedIndex (of_nat q) validatorCount seed)))
                    [unat (i + 1) ..< unat endOffset], None)"
      using "1.IH" [OF True ok [symmetric] refl _ le1 _ rest] rng inr "1.prems"(3) by simp
    have tk: "take (unat (i + 1) - unat startOffset) ?indices'
        = take (unat i - unat startOffset) indices @ [validatorIndices ! unat p]"
      using suc ge inr off
      by (simp add: Suc_diff_le take_Suc_conv_app_nth)
    have up: "[unat i ..< unat endOffset] = unat i # [unat (i + 1) ..< unat endOffset]"
      using lt suc by (simp add: upt_conv_Cons)
    have "ComputeCommittee_loop permutedIndex validatorIndices seed validatorCount
           startOffset endOffset i indices
        = ComputeCommittee_loop permutedIndex validatorIndices seed validatorCount
           startOffset endOffset (i + 1) ?indices'"
      using True rng inr by (subst ComputeCommittee_loop.simps) (simp add: ok)

    moreover have "of_nat (unat i) = i" by simp
    ultimately show ?thesis using IH tk up ok by simp
  qed
qed

lemma ComputeCommittee_map:
  assumes so: "splitOffset (of_nat (length validatorIndices)) totalCommittees index = Inr startOffset"
    and eo: "splitOffset (of_nat (length validatorIndices)) totalCommittees (index + 1) = Inr endOffset"
    and le: "startOffset \<le> endOffset"
    and ok: "\<forall>q. startOffset \<le> q \<and> q < endOffset \<longrightarrow>
            snd (permutedIndex q (of_nat (length validatorIndices)) seed) = None
            \<and> unat (fst (permutedIndex q (of_nat (length validatorIndices)) seed))
                < length validatorIndices"
  shows "ComputeCommittee splitOffset permutedIndex validatorIndices seed index totalCommittees
         = Inr (map (\<lambda>q. validatorIndices
                       ! unat (fst (permutedIndex (of_nat q) (of_nat (length validatorIndices)) seed)))
                  [unat startOffset ..< unat endOffset], None)"
proof -
  have "ComputeCommittee_loop permutedIndex validatorIndices seed (of_nat (length validatorIndices))
           startOffset endOffset startOffset (replicate (unat (endOffset - startOffset)) 0)
        = Inr (take (unat startOffset - unat startOffset) (replicate (unat (endOffset - startOffset)) 0)
                @ map (\<lambda>q. validatorIndices
                       ! unat (fst (permutedIndex (of_nat q) (of_nat (length validatorIndices)) seed)))
                    [unat startOffset ..< unat endOffset], None)"
    using le ok by (intro ComputeCommittee_loop_map) simp_all
  then show ?thesis by (simp add: ComputeCommittee_def so eo)
qed

lemma ComputeCommittee_loop_failure:
  assumes "i \<le> p" and "p < endOffset"
    and "snd (permutedIndex p validatorCount seed) \<noteq> None"
  shows "\<forall>xs. ComputeCommittee_loop permutedIndex validatorIndices seed validatorCount
           startOffset endOffset i indices \<noteq> Inr (xs, None)"
  using assms
proof (induction permutedIndex validatorIndices seed validatorCount startOffset endOffset i indices
       rule: ComputeCommittee_loop.induct)
  case (1 permutedIndex validatorIndices seed validatorCount startOffset endOffset i indices)
  from "1.prems" have lt: "i < endOffset" by simp
  obtain q err where c: "permutedIndex i validatorCount seed = (q, err)"
    by (cases "permutedIndex i validatorCount seed")
  show ?case
  proof (cases err)
    case (Some e)
    with lt c show ?thesis by (subst ComputeCommittee_loop.simps) simp
  next
    case None
    with c "1.prems" have "i \<noteq> p" by auto
    with "1.prems" have "i < p" by simp
    then have "unat (i + 1) = unat i + 1" by (rule unat_Suc_below)
    with \<open>i < p\<close> have p1: "i + 1 \<le> p" by (simp add: word_le_nat_alt word_less_nat_alt)
    show ?thesis
    proof (cases "unat q < length validatorIndices \<and> unat (i - startOffset) < length indices")
      case True
      have "\<forall>xs. ComputeCommittee_loop permutedIndex validatorIndices seed validatorCount
           startOffset endOffset (i + 1) (indices[unat (i - startOffset) := validatorIndices ! unat q])
            \<noteq> Inr (xs, None)"
        using "1.IH" [OF lt _ refl True p1 "1.prems"(2,3)] c None by simp
      with lt c None True show ?thesis by (subst ComputeCommittee_loop.simps) simp
    next
      case False
      with lt c None show ?thesis by (subst ComputeCommittee_loop.simps) auto
    qed
  qed
qed

lemma ComputeCommittee_loop_failure_empty:
  assumes "startOffset \<le> i" and "i \<le> p" and "p < endOffset"
    and "snd (permutedIndex p validatorCount seed) \<noteq> None"
    and "length indices = unat (endOffset - startOffset)"
    and "\<forall>q. i \<le> q \<and> q < p \<and> snd (permutedIndex q validatorCount seed) = None \<longrightarrow>
            unat (fst (permutedIndex q validatorCount seed)) < length validatorIndices"
  shows "\<exists>q e. i \<le> q \<and> q \<le> p \<and> snd (permutedIndex q validatorCount seed) = Some e \<and>
          ComputeCommittee_loop permutedIndex validatorIndices seed validatorCount
           startOffset endOffset i indices = Inr ([], Some (CouldNotGetPermutedIndex q e))"
  using assms
proof (induction permutedIndex validatorIndices seed validatorCount startOffset endOffset i indices
       rule: ComputeCommittee_loop.induct)
  case (1 permutedIndex validatorIndices seed validatorCount startOffset endOffset i indices)
  from "1.prems" have lt: "i < endOffset" by simp
  obtain q err where c: "permutedIndex i validatorCount seed = (q, err)"
    by (cases "permutedIndex i validatorCount seed")
  show ?case
  proof (cases err)
    case (Some e)
    have "ComputeCommittee_loop permutedIndex validatorIndices seed validatorCount
           startOffset endOffset i indices = Inr ([], Some (CouldNotGetPermutedIndex i e))"
      using lt c Some by (subst ComputeCommittee_loop.simps) simp
    with c Some "1.prems"(2) show ?thesis by (intro exI [of _ i] exI [of _ e]) simp
  next
    case None
    with c "1.prems" have "i \<noteq> p" by auto
    with "1.prems" have ip: "i < p" by simp
    then have suc: "unat (i + 1) = unat i + 1" by (rule unat_Suc_below)
    with ip have p1: "i + 1 \<le> p" by (simp add: word_le_nat_alt word_less_nat_alt)
    have i1: "i \<le> i + 1" using suc by (simp add: word_le_nat_alt)
    have s1: "startOffset \<le> i + 1" using "1.prems"(1) i1 by simp
    have rq: "unat q < length validatorIndices" using "1.prems"(6) ip c None by auto
    have "unat i < unat endOffset" "unat startOffset \<le> unat i"
      using lt "1.prems"(1) by (simp_all add: word_le_nat_alt word_less_nat_alt)
    moreover have "unat (i - startOffset) = unat i - unat startOffset"
      "length indices = unat endOffset - unat startOffset"
      using "1.prems"(1,5) lt by (simp_all add: unat_sub)
    ultimately have ri: "unat (i - startOffset) < length indices" by simp
    have rest: "\<forall>q. i + 1 \<le> q \<and> q < p \<and> snd (permutedIndex q validatorCount seed) = None \<longrightarrow>
            unat (fst (permutedIndex q validatorCount seed)) < length validatorIndices"
      using "1.prems"(6) i1 by (meson order_trans)
    obtain q' e' where r: "i + 1 \<le> q'" "q' \<le> p"
        "snd (permutedIndex q' validatorCount seed) = Some e'"
        "ComputeCommittee_loop permutedIndex validatorIndices seed validatorCount
           startOffset endOffset (i + 1) (indices[unat (i - startOffset) := validatorIndices ! unat q])
         = Inr ([], Some (CouldNotGetPermutedIndex q' e'))"
      using "1.IH" [OF lt _ refl _ s1 p1 "1.prems"(3,4) _ rest] c None rq ri "1.prems"(5)
      by auto
    have "ComputeCommittee_loop permutedIndex validatorIndices seed validatorCount
           startOffset endOffset i indices = Inr ([], Some (CouldNotGetPermutedIndex q' e'))"
      using lt c None rq ri r(4) by (subst ComputeCommittee_loop.simps) simp
    moreover have "i \<le> q'" using i1 r(1) by simp
    ultimately show ?thesis using r(2,3) by blast
  qed
qed

lemma concat_consecutive_ranges:
  fixes s :: "nat \<Rightarrow> nat"
  assumes "\<forall>i < k. s i \<le> s (Suc i)"
  shows "concat (map (\<lambda>i. [s i ..< s (Suc i)]) [0 ..< k]) = [s 0 ..< s k]"
  using assms
proof (induction k)
  case 0
  show ?case by simp
next
  case (Suc k)
  have mono: "s 0 \<le> s k" using Suc.prems
  proof (induction k)
    case 0 show ?case by simp
  next
    case (Suc k) then show ?case by (meson le_trans less_Suc_eq)
  qed
  have "s k \<le> s (Suc k)" using Suc.prems by simp
  then have "[s 0 ..< s (Suc k)] = [s 0 ..< s k] @ [s k ..< s (Suc k)]"
    using mono by (metis le_Suc_ex upt_add_eq_append)
  with Suc show ?case by simp
qed

lemma mset_permuted_nth:
  assumes "bij_betw \<pi> {..<length xs} {..<length xs}"
  shows "mset (map (\<lambda>q. xs ! \<pi> q) [0 ..< length xs]) = mset xs"
proof -
  have inj: "inj_on \<pi> {0..<length xs}" and img: "\<pi> ` {0..<length xs} = {0..<length xs}"
    using assms by (simp_all add: bij_betw_def lessThan_atLeast0)
  have "mset (map (\<lambda>q. xs ! \<pi> q) [0 ..< length xs])
      = image_mset (nth xs) (image_mset \<pi> (mset_set {0..<length xs}))"
    by (simp add: multiset.map_comp comp_def)
  also have "image_mset \<pi> (mset_set {0..<length xs}) = mset_set {0..<length xs}"
    using inj img by (simp add: image_mset_mset_set)
  also have "image_mset (nth xs) (mset_set {0..<length xs}) = mset (map (nth xs) [0..<length xs])"
    by simp
  also have "\<dots> = mset xs" by (simp add: map_nth)
  finally show ?thesis .
qed

lemma split_mono:
  fixes N T :: nat
  shows "N * i div T \<le> N * Suc i div T"
  by (intro div_le_mono) simp

lemma split_le:
  fixes N T :: nat
  assumes "i \<le> T" "0 < T"
  shows "N * i div T \<le> N"
proof -
  have "N * i \<le> N * T" using assms by simp
  then have "N * i div T \<le> N * T div T" by (rule div_le_mono)
  with assms show ?thesis by simp
qed

lemma unat_of_nat_u64: "n < 2 ^ 64 \<Longrightarrow> unat (of_nat n :: uint64) = n"
  by (simp add: unat_of_nat)

lemma ComputeCommittee_committee:
  fixes validatorIndices :: "uint64 list" and totalCommittees :: uint64
  assumes len: "length validatorIndices < 2 ^ 64"
    and split: "\<forall>i. i \<le> totalCommittees \<longrightarrow>
        splitOffset (of_nat (length validatorIndices)) totalCommittees i
          = Inr (of_nat (length validatorIndices * unat i div unat totalCommittees))"
    and bij: "bij_betw \<pi> {..<length validatorIndices} {..<length validatorIndices}"
    and perm: "\<forall>p < length validatorIndices.
        permutedIndex (of_nat p) (of_nat (length validatorIndices)) seed = (of_nat (\<pi> p), None)"
    and i: "i < unat totalCommittees"
  shows "ComputeCommittee splitOffset permutedIndex validatorIndices seed (of_nat i) totalCommittees
         = Inr (map (\<lambda>q. validatorIndices ! \<pi> q)
                  [length validatorIndices * i div unat totalCommittees
                   ..< length validatorIndices * Suc i div unat totalCommittees], None)"
proof -
  let ?N = "length validatorIndices"
  let ?T = "unat totalCommittees"
  define s where "s k = ?N * k div ?T" for k
  have T64: "?T < 2 ^ 64" using unsigned_less [of totalCommittees, where 'a = nat] by simp
  have T0: "0 < ?T" using i by simp
  have ui: "unat (of_nat i :: uint64) = i" using i T64 by (simp add: unat_of_nat_u64)
  have "(of_nat i :: uint64) < totalCommittees" using i ui by (simp add: word_less_nat_alt)
  then have "unat ((of_nat i :: uint64) + 1) = unat (of_nat i :: uint64) + 1"
    by (rule unat_Suc_below)
  with ui have uSi: "unat ((of_nat i :: uint64) + 1) = Suc i" by simp
  have leT: "(of_nat i :: uint64) \<le> totalCommittees" "(of_nat i :: uint64) + 1 \<le> totalCommittees"
    using i ui uSi by (simp_all only: word_le_nat_alt)
  have iT: "i \<le> ?T" "Suc i \<le> ?T" using i by simp_all
  have sN: "s i \<le> ?N" "s (Suc i) \<le> ?N"
    unfolding s_def by (rule split_le [OF iT(1) T0], rule split_le [OF iT(2) T0])
  have us: "unat (of_nat (s i) :: uint64) = s i" "unat (of_nat (s (Suc i)) :: uint64) = s (Suc i)"
    using sN len by (simp_all add: unat_of_nat_u64)
  have so: "splitOffset (of_nat ?N) totalCommittees (of_nat i) = Inr (of_nat (s i))"
    using split leT(1) ui by (simp add: s_def)
  have eo: "splitOffset (of_nat ?N) totalCommittees (of_nat i + 1) = Inr (of_nat (s (Suc i)))"
    using split leT(2) uSi by (simp add: s_def)
  have "s i \<le> s (Suc i)" unfolding s_def by (rule split_mono)
  then have le: "(of_nat (s i) :: uint64) \<le> of_nat (s (Suc i))"
    unfolding word_le_nat_alt us .
  have inrange: "permutedIndex (of_nat q) (of_nat ?N) seed = (of_nat (\<pi> q), None)
      \<and> unat (of_nat (\<pi> q) :: uint64) = \<pi> q \<and> \<pi> q < ?N" if "q < ?N" for q
  proof -
    from bij that have "\<pi> q < ?N" by (auto simp: bij_betw_def)
    with perm that len show ?thesis by (simp add: unat_of_nat_u64)
  qed
  have ok: "\<forall>q. of_nat (s i) \<le> q \<and> q < of_nat (s (Suc i)) \<longrightarrow>
            snd (permutedIndex q (of_nat ?N) seed) = None
            \<and> unat (fst (permutedIndex q (of_nat ?N) seed)) < ?N"
  proof (intro allI impI)
    fix q :: uint64
    assume "of_nat (s i) \<le> q \<and> q < of_nat (s (Suc i))"
    then have "unat q < s (Suc i)" unfolding word_less_nat_alt us by simp
    with sN have "unat q < ?N" by simp
    from inrange [OF this]
    show "snd (permutedIndex q (of_nat ?N) seed) = None
            \<and> unat (fst (permutedIndex q (of_nat ?N) seed)) < ?N"
      by simp
  qed
  have cc: "ComputeCommittee splitOffset permutedIndex validatorIndices seed (of_nat i) totalCommittees
         = Inr (map (\<lambda>q. validatorIndices
                       ! unat (fst (permutedIndex (of_nat q) (of_nat ?N) seed)))
                  [unat (of_nat (s i) :: uint64) ..< unat (of_nat (s (Suc i)) :: uint64)], None)"
    using so eo le ok by (rule ComputeCommittee_map)
  have "map (\<lambda>q. validatorIndices ! unat (fst (permutedIndex (of_nat q) (of_nat ?N) seed)))
                  [s i ..< s (Suc i)]
      = map (\<lambda>q. validatorIndices ! \<pi> q) [s i ..< s (Suc i)]"
  proof (rule map_cong [OF refl])
    fix q assume "q \<in> set [s i ..< s (Suc i)]"
    with sN have "q < ?N" by simp
    from inrange [OF this]
    show "validatorIndices ! unat (fst (permutedIndex (of_nat q) (of_nat ?N) seed))
        = validatorIndices ! \<pi> q"
      by simp
  qed
  with cc have "ComputeCommittee splitOffset permutedIndex validatorIndices seed (of_nat i)
      totalCommittees = Inr (map (\<lambda>q. validatorIndices ! \<pi> q) [s i ..< s (Suc i)], None)"
    unfolding us by (simp only:)
  then show ?thesis unfolding s_def .
qed

lemma split_mono_le:
  fixes N T :: nat
  assumes "i \<le> j"
  shows "N * i div T \<le> N * j div T"
  using assms by (intro div_le_mono) simp

text \<open>
  Claim C2, as amended. Let \<open>splitOffset\<close> compute \<open>floor(N * i / totalCommittees)\<close> for
  every \<open>i\<close> up to \<open>totalCommittees > 0\<close>, and let \<open>permutedIndex(., N, seed)\<close> be a
  total bijection \<open>\<pi>\<close> on the positions below \<open>N = len(indices)\<close>. Then each call
  \<open>ComputeCommittee(indices, seed, i, totalCommittees)\<close> with \<open>i < totalCommittees\<close>
  returns a committee without error, the committees concatenated hold every entry of
  \<open>indices\<close> exactly as often as \<open>indices\<close> does, and, when the entries of \<open>indices\<close>
  are pairwise distinct, the committees of distinct \<open>i\<close> are pairwise disjoint.
\<close>

theorem ComputeCommittee_partition:
  fixes validatorIndices :: "uint64 list" and totalCommittees :: uint64
  assumes len: "length validatorIndices < 2 ^ 64"
    and pos: "0 < totalCommittees"
    and split: "\<forall>i. i \<le> totalCommittees \<longrightarrow>
        splitOffset (of_nat (length validatorIndices)) totalCommittees i
          = Inr (of_nat (length validatorIndices * unat i div unat totalCommittees))"
    and bij: "bij_betw \<pi> {..<length validatorIndices} {..<length validatorIndices}"
    and perm: "\<forall>p < length validatorIndices.
        permutedIndex (of_nat p) (of_nat (length validatorIndices)) seed = (of_nat (\<pi> p), None)"
  shows "\<exists>cs. length cs = unat totalCommittees
          \<and> (\<forall>i < unat totalCommittees.
                ComputeCommittee splitOffset permutedIndex validatorIndices seed (of_nat i)
                  totalCommittees = Inr (cs ! i, None))
          \<and> mset (concat cs) = mset validatorIndices
          \<and> (distinct validatorIndices \<longrightarrow>
               (\<forall>i j. i < j \<and> j < unat totalCommittees \<longrightarrow> set (cs ! i) \<inter> set (cs ! j) = {}))"
proof -
  let ?N = "length validatorIndices"
  let ?T = "unat totalCommittees"
  define s where "s k = ?N * k div ?T" for k
  define h where "h = (\<lambda>q. validatorIndices ! \<pi> q)"
  define cs where "cs = map (\<lambda>i. map h [s i ..< s (Suc i)]) [0 ..< ?T]"
  have T0: "0 < ?T" using pos by (simp add: word_less_nat_alt)
  have s0: "s 0 = 0" and sT: "s ?T = ?N" using T0 by (simp_all add: s_def)
  have smono: "s i \<le> s j" if "i \<le> j" for i j
    unfolding s_def using that by (rule split_mono_le)
  have sN: "s i \<le> ?N" if "i \<le> ?T" for i
    using smono [OF that] sT by simp
  have l: "length cs = ?T" by (simp add: cs_def)
  have c: "\<forall>i < ?T. ComputeCommittee splitOffset permutedIndex validatorIndices seed (of_nat i)
                  totalCommittees = Inr (cs ! i, None)"
  proof (intro allI impI)
    fix i assume i: "i < ?T"
    have "ComputeCommittee splitOffset permutedIndex validatorIndices seed (of_nat i) totalCommittees
         = Inr (map (\<lambda>q. validatorIndices ! \<pi> q)
                  [?N * i div ?T ..< ?N * Suc i div ?T], None)"
      using len split bij perm i by (rule ComputeCommittee_committee)
    moreover have "cs ! i = map h [s i ..< s (Suc i)]" using i by (simp add: cs_def)
    ultimately show "ComputeCommittee splitOffset permutedIndex validatorIndices seed (of_nat i)
                  totalCommittees = Inr (cs ! i, None)"
      by (simp only: s_def h_def)
  qed
  have "concat cs = map h (concat (map (\<lambda>i. [s i ..< s (Suc i)]) [0 ..< ?T]))"
    by (simp add: cs_def map_concat comp_def)
  also have "concat (map (\<lambda>i. [s i ..< s (Suc i)]) [0 ..< ?T]) = [s 0 ..< s ?T]"
    by (rule concat_consecutive_ranges) (simp add: smono)
  finally have cc: "concat cs = map h [0 ..< ?N]" by (simp only: s0 sT)
  have m: "mset (concat cs) = mset validatorIndices"
    unfolding cc h_def using bij by (rule mset_permuted_nth)
  have d: "set (cs ! i) \<inter> set (cs ! j) = {}"
    if dist: "distinct validatorIndices" and ij: "i < j" "j < ?T" for i j
  proof (rule ccontr)
    assume "set (cs ! i) \<inter> set (cs ! j) \<noteq> {}"
    then obtain x where "x \<in> set (cs ! i)" "x \<in> set (cs ! j)" by blast
    then obtain p q where p: "s i \<le> p" "p < s (Suc i)" "x = h p"
      and q: "s j \<le> q" "q < s (Suc j)" "x = h q"
      using ij by (auto simp: cs_def)
    have "s (Suc i) \<le> s j" using ij by (intro smono) simp
    with p q have pq: "p < q" by simp
    have "s (Suc j) \<le> ?N" using ij by (intro sN) simp
    with q pq have pN: "p < ?N" and qN: "q < ?N" by simp_all
    from bij have inj: "inj_on \<pi> {..<?N}" and img: "\<pi> ` {..<?N} = {..<?N}"
      by (simp_all add: bij_betw_def)
    from inj pN qN pq have ne: "\<pi> p \<noteq> \<pi> q" by (auto dest: inj_onD)
    from img pN qN have "\<pi> p < ?N" "\<pi> q < ?N" by auto
    with dist ne have "validatorIndices ! \<pi> p \<noteq> validatorIndices ! \<pi> q"
      by (simp add: nth_eq_iff_index_eq)
    with p q show False by (simp add: h_def)
  qed
  show ?thesis using l c m d by blast
qed

lemma SplitOffset_floor:
  "chunks \<noteq> 0 \<Longrightarrow> n < 2 ^ 64 \<Longrightarrow>
   SplitOffset (of_nat n) chunks i = Inr (of_nat (n * unat i div unat chunks))"
  by (simp add: SplitOffset_def unat_of_nat_u64)

lemma ComputeCommittee_loop_step:
  "i < endOffset \<Longrightarrow> snd (permutedIndex i validatorCount seed) = None
   \<Longrightarrow> unat (fst (permutedIndex i validatorCount seed)) < length validatorIndices
   \<Longrightarrow> unat (i - startOffset) < length indices
   \<Longrightarrow> ComputeCommittee_loop permutedIndex validatorIndices seed validatorCount
         startOffset endOffset i indices
       = ComputeCommittee_loop permutedIndex validatorIndices seed validatorCount
           startOffset endOffset (i + 1)
           (indices[unat (i - startOffset) :=
              validatorIndices ! unat (fst (permutedIndex i validatorCount seed))])"
  by (subst ComputeCommittee_loop.simps) (cases "permutedIndex i validatorCount seed", auto)

lemma ComputeCommittee_loop_done:
  "\<not> i < endOffset
   \<Longrightarrow> ComputeCommittee_loop permutedIndex validatorIndices seed validatorCount
         startOffset endOffset i indices = Inr (indices, None)"
  by (subst ComputeCommittee_loop.simps) simp

lemma ComputeCommittee_loop_error:
  "i < endOffset \<Longrightarrow> snd (permutedIndex i validatorCount seed) = Some err
   \<Longrightarrow> ComputeCommittee_loop permutedIndex validatorIndices seed validatorCount
         startOffset endOffset i indices = Inr ([], Some (CouldNotGetPermutedIndex i err))"
  by (subst ComputeCommittee_loop.simps) (cases "permutedIndex i validatorCount seed", auto)

lemma replicate_numeral: "replicate (numeral k) x = x # replicate (pred_numeral k) x"
  by (simp add: numeral_eq_Suc)

lemma list_update_numeral:
  "(x # xs)[numeral k := v] = x # xs[pred_numeral k := v]"
  by (simp add: numeral_eq_Suc)

lemmas ComputeCommittee_eval =
  ComputeCommittee_def ComputeCommittee_loop_step ComputeCommittee_loop_done
  ComputeCommittee_loop_error SplitOffset_def replicate_numeral list_update_numeral

text \<open>
  Claim C2 as stated fails for an index sequence with a repeated entry: with the
  identity permutation, \<open>[7, 7]\<close> split into two committees gives \<open>[7]\<close> twice, and
  the two committees are not disjoint.
\<close>

theorem ComputeCommittee_duplicates_counterexample:
  "PermutedIndex_identity 0 2 (replicate 32 0) = (0, None)
   \<and> PermutedIndex_identity 1 2 (replicate 32 0) = (1, None)
   \<and> ComputeCommittee SplitOffset PermutedIndex_identity [7, 7] (replicate 32 0) 0 2 = Inr ([7], None)
   \<and> ComputeCommittee SplitOffset PermutedIndex_identity [7, 7] (replicate 32 0) 1 2 = Inr ([7], None)
   \<and> set [7 :: uint64] \<inter> set [7] \<noteq> {}"
  by (simp add: ComputeCommittee_eval PermutedIndex_identity_def)

theorem ComputeCommittee_partition_witness:
  "\<exists>cs. length cs = 2
      \<and> ComputeCommittee SplitOffset PermutedIndex_reversal [10, 20, 30, 40, 50] (replicate 32 0) 0 2
          = Inr (cs ! 0, None)
      \<and> ComputeCommittee SplitOffset PermutedIndex_reversal [10, 20, 30, 40, 50] (replicate 32 0) 1 2
          = Inr (cs ! 1, None)
      \<and> mset (concat cs) = mset [10, 20, 30, 40, 50]
      \<and> set (cs ! 0) \<inter> set (cs ! 1) = {}"
proof -
  let ?vis = "[10, 20, 30, 40, 50] :: uint64 list"
  have len: "length ?vis < 2 ^ 64" by simp
  have pos: "0 < (2 :: uint64)" by simp
  have l5: "length ?vis = 5" by simp
  have split: "\<forall>i. i \<le> 2 \<longrightarrow> SplitOffset (of_nat (length ?vis)) 2 i
                 = Inr (of_nat (length ?vis * unat i div unat (2 :: uint64)))"
    unfolding l5 by (simp add: SplitOffset_def)
  have bij: "bij_betw (\<lambda>p. 4 - p) {..<length ?vis} {..<length ?vis}"
    by (rule bij_betw_byWitness [where f' = "\<lambda>p. 4 - p"]) auto
  have perm: "\<forall>p < length ?vis. PermutedIndex_reversal (of_nat p) (of_nat (length ?vis))
                 (replicate 32 0) = (of_nat (4 - p), None)"
    by (simp add: PermutedIndex_reversal_def of_nat_diff)
  from ComputeCommittee_partition [where validatorIndices = ?vis and totalCommittees = 2
      and splitOffset = SplitOffset and \<pi> = "\<lambda>p. 4 - p"
      and permutedIndex = PermutedIndex_reversal and seed = "replicate 32 0",
      OF len pos split bij perm]
  obtain cs where cs: "length cs = unat (2 :: uint64)"
      "\<forall>i < unat (2 :: uint64).
          ComputeCommittee SplitOffset PermutedIndex_reversal ?vis (replicate 32 0) (of_nat i) 2
            = Inr (cs ! i, None)"
      "mset (concat cs) = mset ?vis"
      "distinct ?vis \<longrightarrow> (\<forall>i j. i < j \<and> j < unat (2 :: uint64) \<longrightarrow> set (cs ! i) \<inter> set (cs ! j) = {})"
    by blast
  from cs(2) [rule_format, of 0] cs(2) [rule_format, of 1]
  have "ComputeCommittee SplitOffset PermutedIndex_reversal ?vis (replicate 32 0) 0 2
            = Inr (cs ! 0, None)"
    and "ComputeCommittee SplitOffset PermutedIndex_reversal ?vis (replicate 32 0) 1 2
            = Inr (cs ! 1, None)"
    by simp_all
  moreover from cs(4) have "set (cs ! 0) \<inter> set (cs ! 1) = {}" by simp
  ultimately show ?thesis using cs(1,3) by (intro exI [of _ cs]) simp
qed

text \<open>
  Claim C6. When \<open>splitOffset\<close> returns the range of the committee (as it does for
  \<open>totalCommittees > 0\<close>) and \<open>permutedIndex\<close> fails at a position of that range,
  \<open>ComputeCommittee\<close> never returns a committee with a nil error; and when the
  positions that \<open>permutedIndex\<close> returned before the failure lie inside
  \<open>validatorIndices\<close>, it returns the empty slice together with an error.
\<close>

theorem ComputeCommittee_permutation_failure:
  assumes so: "splitOffset (of_nat (length validatorIndices)) totalCommittees index = Inr startOffset"
    and eo: "splitOffset (of_nat (length validatorIndices)) totalCommittees (index + 1) = Inr endOffset"
    and p: "startOffset \<le> p" "p < endOffset"
    and fails: "snd (permutedIndex p (of_nat (length validatorIndices)) seed) \<noteq> None"
  shows "(\<forall>xs. ComputeCommittee splitOffset permutedIndex validatorIndices seed index totalCommittees
              \<noteq> Inr (xs, None))
         \<and> ((\<forall>q. startOffset \<le> q \<and> q < p
                  \<and> snd (permutedIndex q (of_nat (length validatorIndices)) seed) = None
               \<longrightarrow> unat (fst (permutedIndex q (of_nat (length validatorIndices)) seed))
                     < length validatorIndices)
             \<longrightarrow> (\<exists>e. ComputeCommittee splitOffset permutedIndex validatorIndices seed index
                         totalCommittees = Inr ([], Some e)))"
proof (intro conjI impI)
  show "\<forall>xs. ComputeCommittee splitOffset permutedIndex validatorIndices seed index totalCommittees
              \<noteq> Inr (xs, None)"
    using ComputeCommittee_loop_failure [where permutedIndex = permutedIndex and seed = seed
        and validatorCount = "of_nat (length validatorIndices)", OF p fails]
    by (simp add: ComputeCommittee_def so eo)
next
  assume "\<forall>q. startOffset \<le> q \<and> q < p
                  \<and> snd (permutedIndex q (of_nat (length validatorIndices)) seed) = None
               \<longrightarrow> unat (fst (permutedIndex q (of_nat (length validatorIndices)) seed))
                     < length validatorIndices"
  with ComputeCommittee_loop_failure_empty [where permutedIndex = permutedIndex and seed = seed
        and validatorCount = "of_nat (length validatorIndices)"
        and indices = "replicate (unat (endOffset - startOffset)) 0"
        and validatorIndices = validatorIndices, OF order_refl p fails]
  show "\<exists>e. ComputeCommittee splitOffset permutedIndex validatorIndices seed index
                         totalCommittees = Inr ([], Some e)"
    by (auto simp: ComputeCommittee_def so eo)
qed

theorem ComputeCommittee_permutation_failure_witness:
  "(\<forall>xs. ComputeCommittee SplitOffset
            (\<lambda>i n s. if i = 1 then (0, Some (Upstream ''shuffle'')) else (i, None))
            [10, 20, 30, 40] (replicate 32 0) 0 2 \<noteq> Inr (xs, None))
   \<and> (\<exists>e. ComputeCommittee SplitOffset
            (\<lambda>i n s. if i = 1 then (0, Some (Upstream ''shuffle'')) else (i, None))
            [10, 20, 30, 40] (replicate 32 0) 0 2 = Inr ([], Some e))"
proof -
  let ?pi = "\<lambda>(i :: uint64) (n :: uint64) (s :: seed).
               if i = 1 then (0 :: uint64, Some (Upstream ''shuffle'')) else (i, None)"
  let ?vis = "[10, 20, 30, 40] :: uint64 list"
  have so: "SplitOffset (of_nat (length ?vis)) 2 0 = Inr 0"
    and eo: "SplitOffset (of_nat (length ?vis)) 2 (0 + 1) = Inr 2"
    by (simp_all add: SplitOffset_def)
  have p: "(0 :: uint64) \<le> 1" "(1 :: uint64) < 2" by simp_all
  have fails: "snd (?pi 1 (of_nat (length ?vis)) (replicate 32 0)) \<noteq> None" by simp
  have contract: "\<forall>q. 0 \<le> q \<and> q < 1 \<and> snd (?pi q (of_nat (length ?vis)) (replicate 32 0)) = None
      \<longrightarrow> unat (fst (?pi q (of_nat (length ?vis)) (replicate 32 0))) < length ?vis"
    by (simp add: word_less_1)
  from ComputeCommittee_permutation_failure [where splitOffset = SplitOffset
      and validatorIndices = ?vis and totalCommittees = 2 and index = 0 and permutedIndex = ?pi
      and seed = "replicate 32 0", OF so eo p fails] contract
  show ?thesis by blast
qed

section \<open>Properties of committee assignment\<close>

lemma CommitteeAssignment_members_absent:
  "validatorIndex \<notin> set members \<Longrightarrow>
   CommitteeAssignment_members validatorIndex slot cachedCommittees committee [] members = Next []"
  by (induction members) auto

lemma CommitteeAssignment_committees_absent:
  "\<forall>c \<in> set committees. validatorIndex \<notin> set (CommitteeInfo.Committee c) \<Longrightarrow>
   CommitteeAssignment_committees validatorIndex slot cachedCommittees [] committees = Next []"
  by (induction committees) (auto simp: CommitteeAssignment_members_absent)

text \<open>The placeholder that a cache miss stores for a slot.\<close>

lemma ToCommitteeCache_empty: "ToCommitteeCache slot [] = \<lparr>Slot = slot, Committees = []\<rparr>"
  by (simp add: ToCommitteeCache_def)

lemma CommitteeAssignment_slots_absent:
  assumes "\<forall>s. slot \<le> s \<and> s < bound \<longrightarrow>
             (\<forall>r. cache s = Some r \<longrightarrow>
                (\<forall>c \<in> set (Committees r). validatorIndex \<notin> set (CommitteeInfo.Committee c)))"
  shows "CommitteeAssignment_slots validatorIndex bound slot [] cache
         = (Inr ([], 0, 0, False,
                 Some (StatusError NotFound ''validator not found found in assignments'')),
            (\<lambda>s. if slot \<le> s \<and> s < bound \<and> cache s = None
                  then Some \<lparr>Slot = s, Committees = []\<rparr> else cache s))"
  using assms
proof (induction validatorIndex bound slot "[] :: CommitteeInfo list" cache
       rule: CommitteeAssignment_slots.induct)
  case (1 validatorIndex bound slot cache)
  show ?case
  proof (cases "slot < bound")
    case False
    then have "(\<lambda>s. if slot \<le> s \<and> s < bound \<and> cache s = None
                  then Some \<lparr>Slot = s, Committees = []\<rparr> else cache s) = cache"
      by (auto simp: fun_eq_iff)
    with False show ?thesis by (subst CommitteeAssignment_slots.simps) simp
  next
    case True
    have suc: "unat (slot + 1) = unat slot + 1" using True by (rule unat_Suc_below)
    have nxt: "slot + 1 \<le> s \<longleftrightarrow> slot \<le> s \<and> s \<noteq> slot" for s
      using suc by (auto simp: word_le_nat_alt word_unat_eq_iff)
    show ?thesis
    proof (cases "cache slot")
      case None
      let ?ph = "\<lparr>Slot = slot, Committees = []\<rparr>"
      let ?cache' = "cache(slot \<mapsto> ?ph)"
      have add: "AddCommittees cache (ToCommitteeCache slot []) = (?cache', None)"
        using None by (simp add: AddCommittees_def ToCommitteeCache_empty)
      have scan: "CommitteeAssignment_committees validatorIndex slot (ToCommitteeCache slot []) []
                    (Committees (ToCommitteeCache slot [])) = Next []"
        by (simp add: ToCommitteeCache_empty)
      have pre: "\<forall>s. slot + 1 \<le> s \<and> s < bound \<longrightarrow>
             (\<forall>r. ?cache' s = Some r \<longrightarrow>
                (\<forall>c \<in> set (Committees r). validatorIndex \<notin> set (CommitteeInfo.Committee c)))"
        using "1.prems" by (auto simp: nxt)
      have IH: "CommitteeAssignment_slots validatorIndex bound (slot + 1) [] ?cache'
         = (Inr ([], 0, 0, False,
                 Some (StatusError NotFound ''validator not found found in assignments'')),
            (\<lambda>s. if slot + 1 \<le> s \<and> s < bound \<and> ?cache' s = None
                  then Some \<lparr>Slot = s, Committees = []\<rparr> else ?cache' s))"
        using "1.hyps"(1) [of None None "[]" "ToCommitteeCache slot []" ?cache' None]
          True None add scan pre
        by (simp add: CommitteesInfoBySlot_def)
      have "CommitteeAssignment_slots validatorIndex bound slot [] cache
          = CommitteeAssignment_slots validatorIndex bound (slot + 1) [] ?cache'"
        using True None add scan
        by (subst CommitteeAssignment_slots.simps) (simp add: CommitteesInfoBySlot_def)
      moreover have "(\<lambda>s. if slot + 1 \<le> s \<and> s < bound \<and> ?cache' s = None
                  then Some \<lparr>Slot = s, Committees = []\<rparr> else ?cache' s)
          = (\<lambda>s. if slot \<le> s \<and> s < bound \<and> cache s = None
                  then Some \<lparr>Slot = s, Committees = []\<rparr> else cache s)"
        using None True nxt by (auto simp: fun_eq_iff)
      ultimately show ?thesis using IH by simp
    next
      case (Some r)
      have scan: "CommitteeAssignment_committees validatorIndex slot r [] (Committees r) = Next []"
        using "1.prems" True Some by (intro CommitteeAssignment_committees_absent) auto
      have pre: "\<forall>s. slot + 1 \<le> s \<and> s < bound \<longrightarrow>
             (\<forall>r. cache s = Some r \<longrightarrow>
                (\<forall>c \<in> set (Committees r). validatorIndex \<notin> set (CommitteeInfo.Committee c)))"
        using "1.prems" by (auto simp: nxt)
      have IH: "CommitteeAssignment_slots validatorIndex bound (slot + 1) [] cache
         = (Inr ([], 0, 0, False,
                 Some (StatusError NotFound ''validator not found found in assignments'')),
            (\<lambda>s. if slot + 1 \<le> s \<and> s < bound \<and> cache s = None
                  then Some \<lparr>Slot = s, Committees = []\<rparr> else cache s))"
        using "1.hyps"(2) [of "Some r" None r] True Some scan pre
        by (simp add: CommitteesInfoBySlot_def)
      have "CommitteeAssignment_slots validatorIndex bound slot [] cache
          = CommitteeAssignment_slots validatorIndex bound (slot + 1) [] cache"
        using True Some scan
        by (subst CommitteeAssignment_slots.simps) (simp add: CommitteesInfoBySlot_def)
      moreover have "(\<lambda>s. if slot + 1 \<le> s \<and> s < bound \<and> cache s = None
                  then Some \<lparr>Slot = s, Committees = []\<rparr> else cache s)
          = (\<lambda>s. if slot \<le> s \<and> s < bound \<and> cache s = None
                  then Some \<lparr>Slot = s, Committees = []\<rparr> else cache s)"
        using Some True nxt by (auto simp: fun_eq_iff)
      ultimately show ?thesis using IH by simp
    qed
  qed
qed

text \<open>
  Claim C5. With a non-zero \<open>SlotsPerEpoch\<close>: when the epoch of the target slot is
  below \<open>PrevEpoch(state)\<close> or above \<open>NextEpoch(state)\<close>, \<open>CommitteeAssignment\<close> fails
  with the out-of-bounds error and leaves the cache as it was; when the epoch is in
  bounds and the validator index is in no cached committee of any slot that the loop
  visits, it returns no assignment and the typed error \<open>status.Error(codes.NotFound)\<close>,
  a different value from the out-of-bounds error and from the cache errors.
\<close>

theorem CommitteeAssignment_errors:
  assumes "SlotsPerEpoch cfg \<noteq> 0"
  shows "(slot div SlotsPerEpoch cfg < PrevEpoch ext state
            \<or> slot div SlotsPerEpoch cfg > NextEpoch ext state
          \<longrightarrow> CommitteeAssignment ext cfg cache state slot validatorIndex registryChange
              = (Inr ([], 0, 0, False,
                      Some (EpochOutOfBounds (slot div SlotsPerEpoch cfg - GenesisEpoch cfg)
                              (PrevEpoch ext state - GenesisEpoch cfg)
                              (NextEpoch ext state - GenesisEpoch cfg))),
                 cache))
         \<and> (PrevEpoch ext state \<le> slot div SlotsPerEpoch cfg
            \<and> slot div SlotsPerEpoch cfg \<le> NextEpoch ext state
            \<and> (\<forall>s. StartSlot ext (slot div SlotsPerEpoch cfg) \<le> s
                    \<and> s < StartSlot ext (slot div SlotsPerEpoch cfg) + SlotsPerEpoch cfg
                  \<longrightarrow> (\<forall>r. cache s = Some r \<longrightarrow>
                         (\<forall>c \<in> set (Committees r).
                             validatorIndex \<notin> set (CommitteeInfo.Committee c))))
          \<longrightarrow> fst (CommitteeAssignment ext cfg cache state slot validatorIndex registryChange)
              = Inr ([], 0, 0, False,
                     Some (StatusError NotFound ''validator not found found in assignments'')))"
proof (intro conjI impI)
  assume "slot div SlotsPerEpoch cfg < PrevEpoch ext state
            \<or> slot div SlotsPerEpoch cfg > NextEpoch ext state"
  with assms show "CommitteeAssignment ext cfg cache state slot validatorIndex registryChange
              = (Inr ([], 0, 0, False,
                      Some (EpochOutOfBounds (slot div SlotsPerEpoch cfg - GenesisEpoch cfg)
                              (PrevEpoch ext state - GenesisEpoch cfg)
                              (NextEpoch ext state - GenesisEpoch cfg))),
                 cache)"
    by (simp add: CommitteeAssignment_def Let_def)
next
  let ?start = "StartSlot ext (slot div SlotsPerEpoch cfg)"
  assume a: "PrevEpoch ext state \<le> slot div SlotsPerEpoch cfg
            \<and> slot div SlotsPerEpoch cfg \<le> NextEpoch ext state
            \<and> (\<forall>s. ?start \<le> s \<and> s < ?start + SlotsPerEpoch cfg
                  \<longrightarrow> (\<forall>r. cache s = Some r \<longrightarrow>
                         (\<forall>c \<in> set (Committees r).
                             validatorIndex \<notin> set (CommitteeInfo.Committee c))))"
  then have absent: "\<forall>s. ?start \<le> s \<and> s < ?start + SlotsPerEpoch cfg
                  \<longrightarrow> (\<forall>r. cache s = Some r \<longrightarrow>
                         (\<forall>c \<in> set (Committees r).
                             validatorIndex \<notin> set (CommitteeInfo.Committee c)))"
    by blast
  from a have inb: "\<not> (slot div SlotsPerEpoch cfg < PrevEpoch ext state
            \<or> slot div SlotsPerEpoch cfg > NextEpoch ext state)"
    by (simp add: not_less)
  have "CommitteeAssignment ext cfg cache state slot validatorIndex registryChange
      = CommitteeAssignment_slots validatorIndex (?start + SlotsPerEpoch cfg) ?start [] cache"
    using assms inb by (simp add: CommitteeAssignment_def Let_def)
  then show "fst (CommitteeAssignment ext cfg cache state slot validatorIndex registryChange)
              = Inr ([], 0, 0, False,
                     Some (StatusError NotFound ''validator not found found in assignments''))"
    by (simp add: CommitteeAssignment_slots_absent [OF absent])
qed

theorem CommitteeAssignment_errors_witness:
  "CommitteeAssignment example_collaborators
       \<lparr>ShardCount = 2, SlotsPerEpoch = 2, TargetCommitteeSize = 1, GenesisEpoch = 0\<rparr>
       example_cache () 6 7 False
     = (Inr ([], 0, 0, False, Some (EpochOutOfBounds 3 0 1)), example_cache)
   \<and> fst (CommitteeAssignment example_collaborators
       \<lparr>ShardCount = 2, SlotsPerEpoch = 2, TargetCommitteeSize = 1, GenesisEpoch = 0\<rparr>
       example_cache () 2 7 False)
     = Inr ([], 0, 0, False, Some (StatusError NotFound ''validator not found found in assignments''))"
proof -
  let ?cfg = "\<lparr>ShardCount = 2, SlotsPerEpoch = 2, TargetCommitteeSize = 1, GenesisEpoch = 0\<rparr>"
  have spe: "SlotsPerEpoch ?cfg \<noteq> 0" by simp
  have out: "6 div SlotsPerEpoch ?cfg < PrevEpoch example_collaborators ()
            \<or> 6 div SlotsPerEpoch ?cfg > NextEpoch example_collaborators ()"
    by (simp add: example_collaborators_def)
  have inb: "PrevEpoch example_collaborators () \<le> 2 div SlotsPerEpoch ?cfg
            \<and> 2 div SlotsPerEpoch ?cfg \<le> NextEpoch example_collaborators ()"
    by (simp add: example_collaborators_def)
  have absent: "\<forall>s. StartSlot example_collaborators (2 div SlotsPerEpoch ?cfg) \<le> s
                    \<and> s < StartSlot example_collaborators (2 div SlotsPerEpoch ?cfg)
                          + SlotsPerEpoch ?cfg
                  \<longrightarrow> (\<forall>r. example_cache s = Some r \<longrightarrow>
                         (\<forall>c \<in> set (Committees r). 7 \<notin> set (CommitteeInfo.Committee c)))"
    by (auto simp: example_cache_def split: if_splits)
  from CommitteeAssignment_errors [OF spe, of 6 example_collaborators "()" example_cache 7 False]
    CommitteeAssignment_errors [OF spe, of 2 example_collaborators "()" example_cache 7 False]
    out inb absent
  show ?thesis by (simp add: example_collaborators_def)
qed

text \<open>
  Claim C9. With a non-zero \<open>SlotsPerEpoch\<close> and the epoch of the target slot in
  bounds: when the cache holds no record for any slot that the loop visits (the slots
  from \<open>StartSlot(epoch)\<close> up to \<open>StartSlot(epoch) + SlotsPerEpoch\<close>),
  \<open>CommitteeAssignment\<close> stores the empty record \<open>ToCommitteeCache(slot, [])\<close> for each of
  these slots, changes no other entry, and fails with the \<open>NotFound\<close> error, whatever
  the validator index and the state are; so it does right after
  \<open>RestartCommitteeCache\<close>.
\<close>

theorem CommitteeAssignment_cache_miss:
  assumes "SlotsPerEpoch cfg \<noteq> 0"
    and "PrevEpoch ext state \<le> slot div SlotsPerEpoch cfg"
    and "slot div SlotsPerEpoch cfg \<le> NextEpoch ext state"
  shows "((\<forall>s. StartSlot ext (slot div SlotsPerEpoch cfg) \<le> s
               \<and> s < StartSlot ext (slot div SlotsPerEpoch cfg) + SlotsPerEpoch cfg
             \<longrightarrow> cache s = None)
          \<longrightarrow> CommitteeAssignment ext cfg cache state slot validatorIndex registryChange
              = (Inr ([], 0, 0, False,
                      Some (StatusError NotFound ''validator not found found in assignments'')),
                 (\<lambda>s. if StartSlot ext (slot div SlotsPerEpoch cfg) \<le> s
                          \<and> s < StartSlot ext (slot div SlotsPerEpoch cfg) + SlotsPerEpoch cfg
                       then Some \<lparr>Slot = s, Committees = []\<rparr> else cache s)))
         \<and> CommitteeAssignment ext cfg RestartCommitteeCache state slot validatorIndex registryChange
              = (Inr ([], 0, 0, False,
                      Some (StatusError NotFound ''validator not found found in assignments'')),
                 (\<lambda>s. if StartSlot ext (slot div SlotsPerEpoch cfg) \<le> s
                          \<and> s < StartSlot ext (slot div SlotsPerEpoch cfg) + SlotsPerEpoch cfg
                       then Some \<lparr>Slot = s, Committees = []\<rparr> else None))"
proof -
  let ?start = "StartSlot ext (slot div SlotsPerEpoch cfg)"
  let ?nf = "Inr ([], 0, 0, False,
                  Some (StatusError NotFound ''validator not found found in assignments''))
             :: panic + assignment"
  have run: "CommitteeAssignment ext cfg c state slot validatorIndex registryChange
      = (?nf, (\<lambda>s. if ?start \<le> s \<and> s < ?start + SlotsPerEpoch cfg
                    then Some \<lparr>Slot = s, Committees = []\<rparr> else c s))"
    if miss: "\<forall>s. ?start \<le> s \<and> s < ?start + SlotsPerEpoch cfg \<longrightarrow> c s = None" for c
  proof -
    have inb: "\<not> (slot div SlotsPerEpoch cfg < PrevEpoch ext state
            \<or> slot div SlotsPerEpoch cfg > NextEpoch ext state)"
      using assms(2,3) by (simp add: not_less)
    have absent: "\<forall>s. ?start \<le> s \<and> s < ?start + SlotsPerEpoch cfg
                  \<longrightarrow> (\<forall>r. c s = Some r \<longrightarrow>
                         (\<forall>k \<in> set (Committees r).
                             validatorIndex \<notin> set (CommitteeInfo.Committee k)))"
      using miss by simp
    have "CommitteeAssignment ext cfg c state slot validatorIndex registryChange
      = CommitteeAssignment_slots validatorIndex (?start + SlotsPerEpoch cfg) ?start [] c"
      using assms(1) inb by (simp add: CommitteeAssignment_def Let_def)
    also have "\<dots> = (?nf, (\<lambda>s. if ?start \<le> s \<and> s < ?start + SlotsPerEpoch cfg \<and> c s = None
                  then Some \<lparr>Slot = s, Committees = []\<rparr> else c s))"
      by (rule CommitteeAssignment_slots_absent [OF absent])
    also have "(\<lambda>s. if ?start \<le> s \<and> s < ?start + SlotsPerEpoch cfg \<and> c s = None
                  then Some \<lparr>Slot = s, Committees = []\<rparr> else c s)
        = (\<lambda>s. if ?start \<le> s \<and> s < ?start + SlotsPerEpoch cfg
                    then Some \<lparr>Slot = s, Committees = []\<rparr> else c s)"
      using miss by (auto simp: fun_eq_iff)
    finally show ?thesis .
  qed
  have empty: "RestartCommitteeCache = (\<lambda>s. None)"
    by (simp add: RestartCommitteeCache_def NewCommitteesCache_def)
  have "CommitteeAssignment ext cfg (\<lambda>s. None) state slot validatorIndex registryChange
      = (?nf, (\<lambda>s. if ?start \<le> s \<and> s < ?start + SlotsPerEpoch cfg
                    then Some \<lparr>Slot = s, Committees = []\<rparr> else None))"
    by (rule run) simp
  then have c2: "CommitteeAssignment ext cfg RestartCommitteeCache state slot validatorIndex
        registryChange
      = (?nf, (\<lambda>s. if ?start \<le> s \<and> s < ?start + SlotsPerEpoch cfg
                    then Some \<lparr>Slot = s, Committees = []\<rparr> else None))"
    by (simp only: empty)
  have c1: "(\<forall>s. ?start \<le> s \<and> s < ?start + SlotsPerEpoch cfg \<longrightarrow> cache s = None)
      \<longrightarrow> CommitteeAssignment ext cfg cache state slot validatorIndex registryChange
          = (?nf, (\<lambda>s. if ?start \<le> s \<and> s < ?start + SlotsPerEpoch cfg
                    then Some \<lparr>Slot = s, Committees = []\<rparr> else cache s))"
    using run [of cache] by blast
  from c1 c2 show ?thesis by (rule conjI)
qed

theorem CommitteeAssignment_cache_miss_witness:
  "fst (CommitteeAssignment example_collaborators
       \<lparr>ShardCount = 2, SlotsPerEpoch = 2, TargetCommitteeSize = 1, GenesisEpoch = 0\<rparr>
       RestartCommitteeCache () 2 5 False)
     = Inr ([], 0, 0, False, Some (StatusError NotFound ''validator not found found in assignments''))
   \<and> snd (CommitteeAssignment example_collaborators
       \<lparr>ShardCount = 2, SlotsPerEpoch = 2, TargetCommitteeSize = 1, GenesisEpoch = 0\<rparr>
       RestartCommitteeCache () 2 5 False) 2 = Some \<lparr>Slot = 2, Committees = []\<rparr>
   \<and> snd (CommitteeAssignment example_collaborators
       \<lparr>ShardCount = 2, SlotsPerEpoch = 2, TargetCommitteeSize = 1, GenesisEpoch = 0\<rparr>
       RestartCommitteeCache () 2 5 False) 3 = Some \<lparr>Slot = 3, Committees = []\<rparr>
   \<and> snd (CommitteeAssignment example_collaborators
       \<lparr>ShardCount = 2, SlotsPerEpoch = 2, TargetCommitteeSize = 1, GenesisEpoch = 0\<rparr>
       RestartCommitteeCache () 2 5 False) 4 = None"
proof -
  let ?cfg = "\<lparr>ShardCount = 2, SlotsPerEpoch = 2, TargetCommitteeSize = 1, GenesisEpoch = 0\<rparr>"
  have spe: "SlotsPerEpoch ?cfg \<noteq> 0" by simp
  have inb: "PrevEpoch example_collaborators () \<le> 2 div SlotsPerEpoch ?cfg"
    "2 div SlotsPerEpoch ?cfg \<le> NextEpoch example_collaborators ()"
    by (simp_all add: example_collaborators_def)
  from CommitteeAssignment_cache_miss [OF spe inb, of RestartCommitteeCache 5 False]
  show ?thesis by (simp add: example_collaborators_def)
qed

section \<open>Properties of the bitfield check\<close>

lemma CeilDiv8_ceiling: "CeilDiv8 n = \<lceil>real_of_int n / 8\<rceil>"
proof -
  have "\<lceil>real_of_int n / real_of_int 8\<rceil> = - (- n div 8)" by (rule ceiling_divide_eq_div)
  also have "\<dots> = (n + 7) div 8" by presburger
  finally show ?thesis by (simp add: CeilDiv8_def)
qed

lemma CheckBit_in_range:
  "0 \<le> i \<Longrightarrow> i < int (length bitfield) * 8 \<Longrightarrow> snd (CheckBit bitfield i) = None"
  by (simp add: CheckBit_def)

lemma VerifyBitfield_loop_all_clear:
  "(\<forall>j. i \<le> j \<and> j < bitLength \<longrightarrow> checkBit bitfield j = (False, None))
   \<Longrightarrow> VerifyBitfield_loop checkBit bitfield bitLength i = (True, None)"
proof (induction checkBit bitfield bitLength i rule: VerifyBitfield_loop.induct)
  case (1 checkBit bitfield bitLength i)
  show ?case
  proof (cases "i < bitLength")
    case True
    with "1.prems" have c: "checkBit bitfield i = (False, None)" by simp
    have "VerifyBitfield_loop checkBit bitfield bitLength (i + 1) = (True, None)"
      using "1.IH" [OF True c [symmetric] refl] "1.prems" by simp
    with True c show ?thesis by simp
  next
    case False
    then show ?thesis by simp
  qed
qed

lemma VerifyBitfield_loop_some_set:
  "(\<forall>j. i \<le> j \<and> j < bitLength \<longrightarrow> snd (checkBit bitfield j) = None)
   \<Longrightarrow> i \<le> k \<Longrightarrow> k < bitLength \<Longrightarrow> fst (checkBit bitfield k)
   \<Longrightarrow> VerifyBitfield_loop checkBit bitfield bitLength i = (False, None)"
proof (induction checkBit bitfield bitLength i rule: VerifyBitfield_loop.induct)
  case (1 checkBit bitfield bitLength i)
  from "1.prems" have lt: "i < bitLength" by simp
  with "1.prems" have ok: "snd (checkBit bitfield i) = None" by simp
  show ?case
  proof (cases "fst (checkBit bitfield i)")
    case True
    with ok have "checkBit bitfield i = (True, None)" by (simp add: prod_eq_iff)
    with lt show ?thesis by simp
  next
    case False
    with ok have c: "checkBit bitfield i = (False, None)" by (simp add: prod_eq_iff)
    from False "1.prems" have "i \<noteq> k" by auto
    with "1.prems" have k: "i + 1 \<le> k" by simp
    have "VerifyBitfield_loop checkBit bitfield bitLength (i + 1) = (False, None)"
      using "1.IH" [OF lt c [symmetric] refl] "1.prems" k by simp
    with lt c show ?thesis by simp
  qed
qed

text \<open>
  Claim C4. \<open>VerifyBitfield\<close> fails with an error when \<open>len(bitfield)\<close> differs from
  \<open>ceil(committeeSize/8)\<close>. With the right length, and \<open>CheckBit\<close> answering without
  an error at the positions from \<open>committeeSize\<close> up to \<open>len(bitfield)*8\<close>, it
  returns false with no error when the bit at one of these positions is set, and true
  with no error when the bit at each of them is zero.
\<close>

theorem VerifyBitfield_cases:
  "(int (length bitfield) \<noteq> CeilDiv8 committeeSize \<longrightarrow>
      (\<exists>e. VerifyBitfield checkBit bitfield committeeSize = (False, Some e)))
   \<and> (int (length bitfield) = CeilDiv8 committeeSize
        \<and> (\<forall>i. committeeSize \<le> i \<and> i < int (length bitfield) * 8
               \<longrightarrow> snd (checkBit bitfield i) = None)
        \<and> (\<exists>i. committeeSize \<le> i \<and> i < int (length bitfield) * 8 \<and> fst (checkBit bitfield i))
      \<longrightarrow> VerifyBitfield checkBit bitfield committeeSize = (False, None))
   \<and> (int (length bitfield) = CeilDiv8 committeeSize
        \<and> (\<forall>i. committeeSize \<le> i \<and> i < int (length bitfield) * 8
               \<longrightarrow> checkBit bitfield i = (False, None))
      \<longrightarrow> VerifyBitfield checkBit bitfield committeeSize = (True, None))"
proof (intro conjI impI)
  assume "int (length bitfield) \<noteq> CeilDiv8 committeeSize"
  then show "\<exists>e. VerifyBitfield checkBit bitfield committeeSize = (False, Some e)"
    by (simp add: VerifyBitfield_def)
next
  assume a: "int (length bitfield) = CeilDiv8 committeeSize
        \<and> (\<forall>i. committeeSize \<le> i \<and> i < int (length bitfield) * 8
               \<longrightarrow> snd (checkBit bitfield i) = None)
        \<and> (\<exists>i. committeeSize \<le> i \<and> i < int (length bitfield) * 8 \<and> fst (checkBit bitfield i))"
  then obtain k where k: "committeeSize \<le> k" "k < int (length bitfield) * 8" "fst (checkBit bitfield k)"
    by blast
  from a have t: "\<forall>j. committeeSize \<le> j \<and> j < int (length bitfield) * 8
      \<longrightarrow> snd (checkBit bitfield j) = None"
    by blast
  have "VerifyBitfield_loop checkBit bitfield (int (length bitfield) * 8) committeeSize
      = (False, None)"
    using t k by (rule VerifyBitfield_loop_some_set)
  with a show "VerifyBitfield checkBit bitfield committeeSize = (False, None)"
    by (simp add: VerifyBitfield_def)
next
  assume a: "int (length bitfield) = CeilDiv8 committeeSize
        \<and> (\<forall>i. committeeSize \<le> i \<and> i < int (length bitfield) * 8
               \<longrightarrow> checkBit bitfield i = (False, None))"
  then have c: "\<forall>j. committeeSize \<le> j \<and> j < int (length bitfield) * 8
      \<longrightarrow> checkBit bitfield j = (False, None)"
    by blast
  have "VerifyBitfield_loop checkBit bitfield (int (length bitfield) * 8) committeeSize
      = (True, None)"
    using c by (rule VerifyBitfield_loop_all_clear)
  with a show "VerifyBitfield checkBit bitfield committeeSize = (True, None)"
    by (simp add: VerifyBitfield_def)
qed


theorem VerifyBitfield_cases_witness:
  "(\<exists>e. VerifyBitfield CheckBit [0xff] 10 = (False, Some e))
   \<and> fst (CheckBit [0x03, 0x21] 13)
   \<and> VerifyBitfield CheckBit [0x03, 0x21] 10 = (False, None)
   \<and> VerifyBitfield CheckBit [0xff, 0x03] 10 = (True, None)"
proof -
  have range: "i \<in> {10, 11, 12, 13, 14, 15}" if "10 \<le> i \<and> i < 16" for i :: int
    using that by auto
  have len1: "int (length [0xff :: byte]) \<noteq> CeilDiv8 10"
    by (simp add: CeilDiv8_def)
  have len2: "int (length [b0, b1 :: byte]) = CeilDiv8 10" for b0 b1
    by (simp add: CeilDiv8_def)
  have total: "\<forall>i. 10 \<le> i \<and> i < int (length [0x03, 0x21 :: byte]) * 8
      \<longrightarrow> snd (CheckBit [0x03, 0x21] i) = None"
    by (simp add: CheckBit_def)
  have set13: "\<exists>i. 10 \<le> i \<and> i < int (length [0x03, 0x21 :: byte]) * 8
      \<and> fst (CheckBit [0x03, 0x21] i)"
    by (rule exI [of _ 13]) (simp add: CheckBit_def)
  have clear: "\<forall>i. 10 \<le> i \<and> i < int (length [0xff, 0x03 :: byte]) * 8
      \<longrightarrow> CheckBit [0xff, 0x03] i = (False, None)"
  proof (intro allI impI)
    fix i :: int
    assume "10 \<le> i \<and> i < int (length [0xff, 0x03 :: byte]) * 8"
    then have "i \<in> {10, 11, 12, 13, 14, 15}" by (intro range) simp
    then show "CheckBit [0xff, 0x03] i = (False, None)"
      by (auto simp: CheckBit_def)
  qed
  show ?thesis
    using VerifyBitfield_cases [of "[0xff]" 10 CheckBit]
      VerifyBitfield_cases [of "[0x03, 0x21]" 10 CheckBit]
      VerifyBitfield_cases [of "[0xff, 0x03]" 10 CheckBit]
      len1 len2 total set13 clear
    by (simp add: CheckBit_def)
qed

section \<open>Properties of attesting indices\<close>

lemma AttestingIndices_sorted_committee:
  assumes "AttestingIndices ext cfg state data bitfield = Inr (xs, None)"
  shows "\<exists>committee.
           CrosslinkCommitteeAtEpoch ext cfg state (TargetEpoch data) (AttestationData.Shard data)
             = Inr (committee, None)
           \<and> xs = sort committee"
  using assms
  by (auto simp: AttestingIndices_def split: sum.splits prod.splits option.splits if_splits)

text \<open>
  Claim C1 does not hold of the code. The doc comment of \<open>AttestingIndices\<close> and the
  spec ask for the committee members whose bit is set; the code verifies the bitfield
  and then sorts and returns the whole committee. In the example state the committee is
  \<open>[5, 3]\<close> and the one-byte bitfield \<open>0x00\<close> verifies and has no bit set: the members
  to return are none, and the code returns \<open>[3, 5]\<close>.
\<close>

theorem AttestingIndices_returns_whole_committee:
  "CrosslinkCommitteeAtEpoch example_collaborators
       \<lparr>ShardCount = 1, SlotsPerEpoch = 1, TargetCommitteeSize = 1, GenesisEpoch = 0\<rparr> () 0 0
     = Inr ([5, 3], None)
   \<and> VerifyBitfield CheckBit [0x00] 2 = (True, None)
   \<and> attesting_members CheckBit [5, 3] [0x00] = []
   \<and> AttestingIndices example_collaborators
       \<lparr>ShardCount = 1, SlotsPerEpoch = 1, TargetCommitteeSize = 1, GenesisEpoch = 0\<rparr> ()
       \<lparr>TargetEpoch = 0, Shard = 0\<rparr> [0x00]
     = Inr ([3, 5], None)"
  by (simp add: AttestingIndices_def CrosslinkCommitteeAtEpoch_def EpochCommitteeCount_def
      ComputeCommittee_eval PermutedIndex_identity_def VerifyBitfield_def CeilDiv8_def
      CheckBit_def attesting_members_def example_collaborators_def)

text \<open>At that input the result differs from the members that the bitfield selects.\<close>

theorem AttestingIndices_returns_whole_committee_witness:
  "AttestingIndices example_collaborators
       \<lparr>ShardCount = 1, SlotsPerEpoch = 1, TargetCommitteeSize = 1, GenesisEpoch = 0\<rparr> ()
       \<lparr>TargetEpoch = 0, Shard = 0\<rparr> [0x00]
     \<noteq> Inr (attesting_members CheckBit [5, 3] [0x00], None)"
  using AttestingIndices_returns_whole_committee by simp

section \<open>Properties of the initial-sync service\<close>

text \<open>
  Claim C7. In every service state, \<open>Status\<close> returns a non-nil error exactly when
  \<open>chainStarted\<close> is true and \<open>synced\<close> is false; for each of the other three
  combinations of the two flags it returns nil.
\<close>

theorem Status_nonnil_iff:
  "(Status s \<noteq> None) = (chainStarted s \<and> \<not> synced s)"
  by (simp add: Status_def)

text \<open>
  Claim C10. The service built by \<open>NewService\<close> has both flags false, so \<open>Syncing\<close>
  answers true while \<open>Status\<close> answers nil: the two readers disagree in the initial
  state.
\<close>

theorem NewService_Syncing_but_healthy:
  "synced NewService = False \<and> chainStarted NewService = False
   \<and> Syncing NewService = True \<and> Status NewService = None"
  by (simp add: NewService_def Syncing_def Status_def)

lemma waitForMinimumPeers_loop_returns:
  "required \<le> int (peersAt (k + d)) \<Longrightarrow> \<exists>m. waitForMinimumPeers_loop peersAt required k = Some m"
proof (induction d arbitrary: k)
  case 0
  then show ?case by (subst waitForMinimumPeers_loop.simps) simp
next
  case (Suc d)
  from Suc.prems have "required \<le> int (peersAt (k + 1 + d))" by simp
  from Suc.IH [OF this] obtain m where "waitForMinimumPeers_loop peersAt required (k + 1) = Some m"
    by blast
  then show ?case by (subst waitForMinimumPeers_loop.simps) simp
qed

lemma waitForMinimumPeers_returns:
  assumes "min (MaxPeersToSync env) (MinimumSyncPeers env) \<le> int (p2p_BestNonFinalized env n)"
  shows "\<exists>m. waitForMinimumPeers env = Some m"
proof -
  have "(if MinimumSyncPeers env < MaxPeersToSync env then MinimumSyncPeers env
         else MaxPeersToSync env) = min (MaxPeersToSync env) (MinimumSyncPeers env)"
    by (simp add: min_def)
  with assms waitForMinimumPeers_loop_returns [of _ "p2p_BestNonFinalized env" 0 n]
  show ?thesis by (simp add: waitForMinimumPeers_def Let_def)
qed

text \<open>
  Claim C8. When the head state is available, every return of \<open>Resync\<close> has a nil
  error and leaves \<open>synced\<close> true; the round-robin sync ran on the service with
  \<open>synced\<close> false, and an error it returned is attached to the entry
  \<open>Resync attempt complete\<close> of the log, not returned; and \<open>Resync\<close> does return when
  the peers suffice at some poll and the round-robin sync returns. A non-nil error is
  returned only when the head state cannot be retrieved (an error or a nil state), and
  then at once, with the service, \<open>synced\<close> included, unchanged.
\<close>

theorem Resync_marks_synced_again:
  "(chain_HeadState env = (Some genesisTime, None) \<longrightarrow>
      (\<forall>s' logger' entries r.
          Resync env (s, logger) = Some ((s', logger'), entries, r) \<longrightarrow>
            r = None \<and> synced s'
            \<and> (\<exists>s2 e. \<not> synced (s\<lparr>synced := False\<rparr>)
                   \<and> roundRobinSync env (s\<lparr>synced := False\<rparr>) (sint genesisTime) = Some (s2, e)
                   \<and> s' = s2\<lparr>synced := True\<rparr>
                   \<and> (\<forall>x. e = Some x \<longrightarrow> Info ''Resync attempt complete'' (Some x) \<in> set entries)))
      \<and> ((\<exists>n. min (MaxPeersToSync env) (MinimumSyncPeers env) \<le> int (p2p_BestNonFinalized env n))
           \<and> roundRobinSync env (s\<lparr>synced := False\<rparr>) (sint genesisTime) \<noteq> None
         \<longrightarrow> Resync env (s, logger) \<noteq> None))
   \<and> (\<forall>s' logger' entries e.
          Resync env (s, logger) = Some ((s', logger'), entries, Some e) \<longrightarrow>
            (snd (chain_HeadState env) \<noteq> None \<or> fst (chain_HeadState env) = None) \<and> s' = s)
   \<and> (snd (chain_HeadState env) \<noteq> None \<or> fst (chain_HeadState env) = None \<longrightarrow>
        Resync env (s, logger)
          = Some ((s, logger), [], Some (CouldNotRetrieveHeadState (snd (chain_HeadState env)))))"
proof (intro conjI impI allI)
  fix s' logger' entries r
  assume hs: "chain_HeadState env = (Some genesisTime, None)"
    and run: "Resync env (s, logger) = Some ((s', logger'), entries, r)"
  from run hs obtain polls where w: "waitForMinimumPeers env = Some polls"
    by (cases "waitForMinimumPeers env") (auto simp: Resync_def Let_def)
  from run hs w obtain s2 e
    where rr: "roundRobinSync env (s\<lparr>synced := False\<rparr>) (sint genesisTime) = Some (s2, e)"
    by (cases "roundRobinSync env (s\<lparr>synced := False\<rparr>) (sint genesisTime)")
       (auto simp: Resync_def Let_def)
  from run hs w rr have res: "s' = s2\<lparr>synced := True\<rparr>" "r = None"
      "entries = replicate polls (Info ''Waiting for enough suitable peers before syncing'' logger)
                 @ [Info ''Resync attempt complete'' (if e \<noteq> None then e else logger)]"
    by (auto simp: Resync_def Let_def)
  show "r = None" by (rule res(2))
  show "synced s'" using res(1) by simp
  show "\<exists>s2 e. \<not> synced (s\<lparr>synced := False\<rparr>)
                   \<and> roundRobinSync env (s\<lparr>synced := False\<rparr>) (sint genesisTime) = Some (s2, e)
                   \<and> s' = s2\<lparr>synced := True\<rparr>
                   \<and> (\<forall>x. e = Some x \<longrightarrow> Info ''Resync attempt complete'' (Some x) \<in> set entries)"
    using rr res by (intro exI [of _ s2] exI [of _ e]) auto
next
  assume hs: "chain_HeadState env = (Some genesisTime, None)"
    and live: "(\<exists>n. min (MaxPeersToSync env) (MinimumSyncPeers env) \<le> int (p2p_BestNonFinalized env n))
           \<and> roundRobinSync env (s\<lparr>synced := False\<rparr>) (sint genesisTime) \<noteq> None"
  then obtain m where "waitForMinimumPeers env = Some m"
    using waitForMinimumPeers_returns by blast
  with hs live show "Resync env (s, logger) \<noteq> None"
    by (auto simp: Resync_def Let_def split: option.splits prod.splits)
next
  fix s' logger' entries e
  assume run: "Resync env (s, logger) = Some ((s', logger'), entries, Some e)"
  then show "snd (chain_HeadState env) \<noteq> None \<or> fst (chain_HeadState env) = None"
    by (auto simp: Resync_def Let_def split: option.splits prod.splits)
  from run show "s' = s"
    by (auto simp: Resync_def Let_def split: option.splits prod.splits)
next
  assume "snd (chain_HeadState env) \<noteq> None \<or> fst (chain_HeadState env) = None"
  then show "Resync env (s, logger)
          = Some ((s, logger), [], Some (CouldNotRetrieveHeadState (snd (chain_HeadState env))))"
    by (auto simp: Resync_def split: option.splits prod.splits)
qed

theorem Resync_marks_synced_again_witness:
  "(\<exists>s' logger' entries.
       Resync example_sync (\<lparr>synced = True, chainStarted = True, lastProcessedSlot = 0\<rparr>, None)
         = Some ((s', logger'), entries, None)
       \<and> synced s' \<and> lastProcessedSlot s' = 7
       \<and> Info ''Resync attempt complete'' (Some (Upstream ''sync'')) \<in> set entries)
   \<and> Resync (example_sync\<lparr>chain_HeadState := (None, Some (Upstream ''db''))\<rparr>)
         (\<lparr>synced = True, chainStarted = True, lastProcessedSlot = 0\<rparr>, None)
       = Some ((\<lparr>synced = True, chainStarted = True, lastProcessedSlot = 0\<rparr>, None), [],
               Some (CouldNotRetrieveHeadState (Some (Upstream ''db''))))"
proof -
  let ?s = "\<lparr>synced = True, chainStarted = True, lastProcessedSlot = 0\<rparr>"
  note inst = Resync_marks_synced_again [of example_sync 100 ?s None]
  have hs: "chain_HeadState example_sync = (Some 100, None)" by (simp add: example_sync_def)
  have peers: "\<exists>n. min (MaxPeersToSync example_sync) (MinimumSyncPeers example_sync)
                  \<le> int (p2p_BestNonFinalized example_sync n)"
    by (rule exI [of _ 2]) (simp add: example_sync_def)
  have rr: "roundRobinSync example_sync (?s\<lparr>synced := False\<rparr>) (sint (100 :: uint64))
      = Some (?s\<lparr>synced := False, lastProcessedSlot := 7\<rparr>, Some (Upstream ''sync''))"
    by (simp add: example_sync_def)
  from inst hs peers rr have "Resync example_sync (?s, None) \<noteq> None" by simp
  then obtain s' logger' entries r
    where run: "Resync example_sync (?s, None) = Some ((s', logger'), entries, r)"
    by (cases "Resync example_sync (?s, None)") auto
  from inst hs run have r: "r = None" and sy: "synced s'"
    and ex: "\<exists>s2 e. roundRobinSync example_sync (?s\<lparr>synced := False\<rparr>) (sint (100 :: uint64))
                     = Some (s2, e)
                \<and> s' = s2\<lparr>synced := True\<rparr>
                \<and> (\<forall>x. e = Some x \<longrightarrow> Info ''Resync attempt complete'' (Some x) \<in> set entries)"
    by auto
  from ex rr have "lastProcessedSlot s' = 7"
    and "Info ''Resync attempt complete'' (Some (Upstream ''sync'')) \<in> set entries"
    by auto
  with run r sy have first: "\<exists>s' logger' entries.
       Resync example_sync (?s, None) = Some ((s', logger'), entries, None)
       \<and> synced s' \<and> lastProcessedSlot s' = 7
       \<and> Info ''Resync attempt complete'' (Some (Upstream ''sync'')) \<in> set entries"
    by blast
  have second: "Resync (example_sync\<lparr>chain_HeadState := (None, Some (Upstream ''db''))\<rparr>) (?s, None)
       = Some ((?s, None), [], Some (CouldNotRetrieveHeadState (Some (Upstream ''db''))))"
    using Resync_marks_synced_again
      [of "example_sync\<lparr>chain_HeadState := (None, Some (Upstream ''db''))\<rparr>" 0 ?s None]
    by simp
  from first second show ?thesis by (rule conjI)
qed

end
